theory Spec2Isabelle
  imports Complex_Main "HOL-Library.Multiset"
begin

chapter \<open>JiTCODE: a shallow embedding of the code-generation helpers and the integrator facade\<close>

text \<open>
  The development follows the two source files, \<^verbatim>\<open>jitcode/_helpers.py\<close> and
  \<^verbatim>\<open>jitcode/_jitcode.py\<close>. The first part holds the embedding (every Python
  function that a property below speaks about, under its own name), the second part the
  properties. Exceptions are values of \<open>pyerror\<close>; a function that may raise returns
  \<open>pyerror + 'a\<close> with \<open>Inl\<close> for the exception.
\<close>

section \<open>The embedding\<close>

datatype pyerror =
    ValueError | TypeError | NameError | OSError | NotImplementedError
  | AttributeError | RecursionError | TranslationError | BuildError | ZeroDivisionError

subsection \<open>String manipulation (\<^verbatim>\<open>_helpers.py\<close>)\<close>

text \<open>
  Strings are lists of characters with the code points 0 to 255. \<^verbatim>\<open>str.isdigit\<close>
  accepts thirteen of them: the decimal digits \<^verbatim>\<open>0\<close> to \<^verbatim>\<open>9\<close> and the superscript
  digits two, three and one (code points 0xB2, 0xB3, 0xB9). \<open>rsplit_int\<close> recurses on
  \<^verbatim>\<open>s[:-1]\<close> exactly as the source does.
\<close>

definition isdecimal :: "char \<Rightarrow> bool" where
  "isdecimal c = (c \<in> set ''0123456789'')"

definition isdigit :: "char \<Rightarrow> bool" where
  "isdigit c = (isdecimal c \<or> c = CHR 0xB2 \<or> c = CHR 0xB3 \<or> c = CHR 0xB9)"

function rsplit_int :: "string \<Rightarrow> string \<times> string" where
  "rsplit_int s =
     (if s \<noteq> [] \<and> isdigit (last s)
      then (case rsplit_int (butlast s) of (x, y) \<Rightarrow> (x, y @ [last s]))
      else (s, []))"
  by pat_completeness auto
termination
  by (relation "measure length") auto

text \<open>
  The two built-ins \<open>count_up\<close> relies on. \<^verbatim>\<open>int(i)\<close>, for a string \<open>i\<close> of characters
  that \<^verbatim>\<open>str.isdigit\<close> accepts: the number it reads as if it is not empty and all its
  characters are decimal digits, and a \<open>ValueError\<close> otherwise (a superscript digit is no
  digit of a numeral). \<^verbatim>\<open>"%.Ni" % k\<close>: the decimal numeral of a non-negative \<open>k\<close>,
  padded with zeros on the left to at least \<open>N\<close> digits.
\<close>

definition digit_value :: "char \<Rightarrow> nat" where
  "digit_value c = length (takeWhile (\<lambda>d. d \<noteq> c) ''0123456789'')"

definition decimal_value :: "string \<Rightarrow> nat" where
  "decimal_value ds = foldl (\<lambda>a c. 10 * a + digit_value c) 0 ds"

definition py_int :: "string \<Rightarrow> pyerror + nat" where
  "py_int ds =
     (if ds \<noteq> [] \<and> list_all isdecimal ds then Inr (decimal_value ds) else Inl ValueError)"

definition digit_char :: "nat \<Rightarrow> char" where
  "digit_char d = ''0123456789'' ! d"

function decimal :: "nat \<Rightarrow> string" where
  "decimal k = (if k < 10 then [digit_char k] else decimal (k div 10) @ [digit_char (k mod 10)])"
  by pat_completeness auto
termination
  by (relation "measure id") auto

definition format_prec :: "nat \<Rightarrow> nat \<Rightarrow> string" where
  "format_prec p k = replicate (p - length (decimal k)) CHR ''0'' @ decimal k"

definition count_up :: "string \<Rightarrow> pyerror + string" where
  "count_up name =
     (case rsplit_int name of
        (s, i) \<Rightarrow>
          (if i \<noteq> []
           then (case py_int i of
                   Inl e \<Rightarrow> Inl e
                 | Inr k \<Rightarrow> Inr (s @ format_prec (length i) (k + 1)))
           else Inr (s @ ''_1'')))"

declare rsplit_int.simps [simp del] decimal.simps [simp del]

subsection \<open>Chunked emission (\<^verbatim>\<open>write_in_chunks\<close>)\<close>

text \<open>
  A sink is the text written to it so far; \<^verbatim>\<open>write\<close> appends. The producer
  \<^verbatim>\<open>lines\<close> is the finite list of lines it yields. \<open>call_line\<close> and \<open>def_header\<close>
  are the writes at the head of the \<^verbatim>\<open>while\<close> body, to the main sink and to the
  definitions sink.
\<close>

fun str_join :: "string \<Rightarrow> string list \<Rightarrow> string" where
  "str_join sep [] = []"
| "str_join sep [x] = x"
| "str_join sep (x # y # zs) = x @ sep @ str_join sep (y # zs)"

definition call_line :: "string \<Rightarrow> (string \<times> string) list \<Rightarrow> string" where
  "call_line funcname arguments =
     funcname @ ''('' @
     (if arguments \<noteq> [] then str_join '', '' (map fst arguments) else '''') @
     [CHR '')'', CHR '';'', CHR 0x0A]"

definition def_header :: "string \<Rightarrow> (string \<times> string) list \<Rightarrow> string" where
  "def_header funcname arguments =
     ''void '' @ funcname @ ''('' @
     (if arguments \<noteq> []
      then str_join '', '' (map (\<lambda>argument. snd argument @ '' '' @ fst argument) arguments)
      else ''void'') @
     [CHR '')'', CHR ''{'', CHR 0x0A]"

definition def_footer :: string where
  "def_footer = [CHR ''}'', CHR 0x0A]"

text \<open>
  The \<^verbatim>\<open>while True\<close> loop. One round writes the call and the header, then up to
  \<^verbatim>\<open>chunk_size\<close> lines; \<^verbatim>\<open>StopIteration\<close> inside the round (fewer than
  \<^verbatim>\<open>chunk_size\<close> lines were left) ends the loop after the footer. Otherwise the name is
  counted up, which may raise, and the next round follows. With \<^verbatim>\<open>chunk_size < 1\<close> the
  inner \<^verbatim>\<open>for\<close> never calls \<^verbatim>\<open>next\<close>: the loop ends only if counting the name up
  raises in the first round (a name that was counted up once ends in decimal digits, and
  counting it up again does not raise), and the source does not return otherwise. The
  result is \<open>None\<close> for "does not return", and else the exception raised or the pair of
  the main sink and the definitions sink.
\<close>

function chunk_loop ::
  "string list \<Rightarrow> string \<Rightarrow> string \<Rightarrow> string \<Rightarrow> int \<Rightarrow> (string \<times> string) list
     \<Rightarrow> (pyerror + string \<times> string) option" where
  "chunk_loop lines mainfile deffile funcname chunk_size arguments =
     (let mainfile' = mainfile @ call_line funcname arguments;
          deffile' = deffile @ def_header funcname arguments
      in if chunk_size < 1
         then (case count_up funcname of Inl e \<Rightarrow> Some (Inl e) | Inr funcname' \<Rightarrow> None)
         else if length lines < nat chunk_size
           then Some (Inr (mainfile', deffile' @ concat lines @ def_footer))
         else (case count_up funcname of
                 Inl e \<Rightarrow> Some (Inl e)
               | Inr funcname' \<Rightarrow>
                   chunk_loop (drop (nat chunk_size) lines) mainfile'
                     (deffile' @ concat (take (nat chunk_size) lines) @ def_footer)
                     funcname' chunk_size arguments))"
  by pat_completeness auto
termination
  by (relation "measure (\<lambda>(lines, _). length lines)") auto

declare chunk_loop.simps [simp del]

text \<open>
  \<^verbatim>\<open>write_in_chunks\<close>: the first \<^verbatim>\<open>try\<close> asks the producer for
  \<^verbatim>\<open>chunk_size + 1\<close> lines; if it runs dry first, everything read goes to the main
  sink.
\<close>

definition write_in_chunks ::
  "string list \<Rightarrow> string \<Rightarrow> string \<Rightarrow> string \<Rightarrow> int \<Rightarrow> (string \<times> string) list
     \<Rightarrow> (pyerror + string \<times> string) option" where
  "write_in_chunks lines mainfile deffile name chunk_size arguments =
     (let funcname = ''definitions_'' @ name
      in if length lines < nat (chunk_size + 1)
         then Some (Inr (mainfile @ concat lines, deffile))
         else chunk_loop lines mainfile deffile funcname chunk_size arguments)"

subsection \<open>Symbolic expressions\<close>

text \<open>
  SymPy is an external library; the embedding fixes a small expression language that
  stands for its expressions: integer constants, the state components \<^verbatim>\<open>y(i)\<close>, named
  symbols (helpers are such symbols, and so is the time \<^verbatim>\<open>t\<close>), the accessor
  \<^verbatim>\<open>get_<name>_helper(i)\<close> the emitter substitutes for a helper symbol, sums and
  products. \<open>has\<close> is \<^verbatim>\<open>expr.has(x)\<close> for an atom \<open>x\<close>. The operators \<^verbatim>\<open>+\<close> and
  \<^verbatim>\<open>*\<close> of SymPy evaluate trivial cases at once (a zero summand, a zero or unit
  factor, two constants); \<open>sympy_add\<close> and \<open>sympy_mul\<close> do the same, and \<open>sympy_diff\<close>
  is differentiation by an atom with the sum and product rules. \<open>eval\<close> gives an
  expression its value under an assignment of real numbers to the atoms.
\<close>

datatype atom = Y int | Symbol string | GetHelper string nat

datatype expr = Num int | Atom atom | Add expr expr | Mul expr expr

type_synonym helper = "atom \<times> expr"

fun has :: "expr \<Rightarrow> atom \<Rightarrow> bool" where
  "has (Num c) x = False"
| "has (Atom a) x = (a = x)"
| "has (Add e1 e2) x = (has e1 x \<or> has e2 x)"
| "has (Mul e1 e2) x = (has e1 x \<or> has e2 x)"

definition sympy_add :: "expr \<Rightarrow> expr \<Rightarrow> expr" where
  "sympy_add a b =
     (if a = Num 0 then b else if b = Num 0 then a
      else (case (a, b) of (Num m, Num k) \<Rightarrow> Num (m + k) | _ \<Rightarrow> Add a b))"

definition sympy_mul :: "expr \<Rightarrow> expr \<Rightarrow> expr" where
  "sympy_mul a b =
     (if a = Num 0 \<or> b = Num 0 then Num 0
      else if a = Num 1 then b else if b = Num 1 then a
      else (case (a, b) of (Num m, Num k) \<Rightarrow> Num (m * k) | _ \<Rightarrow> Mul a b))"

fun sympy_diff :: "expr \<Rightarrow> atom \<Rightarrow> expr" where
  "sympy_diff (Num c) x = Num 0"
| "sympy_diff (Atom a) x = (if a = x then Num 1 else Num 0)"
| "sympy_diff (Add e1 e2) x = sympy_add (sympy_diff e1 x) (sympy_diff e2 x)"
| "sympy_diff (Mul e1 e2) x = sympy_add (sympy_mul (sympy_diff e1 x) e2) (sympy_mul e1 (sympy_diff e2 x))"

fun eval :: "(atom \<Rightarrow> real) \<Rightarrow> expr \<Rightarrow> real" where
  "eval env (Num c) = of_int c"
| "eval env (Atom a) = env a"
| "eval env (Add e1 e2) = eval env e1 + eval env e2"
| "eval env (Mul e1 e2) = eval env e1 * eval env e2"

text \<open>\<^verbatim>\<open>expr.subs(substitutions)\<close> for a list of (atom, replacement) pairs: the first
  pair whose atom matches replaces it.\<close>

fun subs :: "expr \<Rightarrow> (atom \<times> expr) list \<Rightarrow> expr" where
  "subs (Num c) substitutions = Num c"
| "subs (Atom a) substitutions = (case map_of substitutions a of Some e \<Rightarrow> e | None \<Rightarrow> Atom a)"
| "subs (Add e1 e2) substitutions = sympy_add (subs e1 substitutions) (subs e2 substitutions)"
| "subs (Mul e1 e2) substitutions = sympy_mul (subs e1 substitutions) (subs e2 substitutions)"

subsection \<open>The helper sorter (\<^verbatim>\<open>_jitcode.py\<close>)\<close>

fun depends_on_any :: "helper \<Rightarrow> helper list \<Rightarrow> bool" where
  "depends_on_any helper [] = False"
| "depends_on_any helper (other_helper # other_helpers) =
     (if has (snd helper) (fst other_helper) then True
      else depends_on_any helper other_helpers)"

text \<open>
  The \<^verbatim>\<open>for j, helper in enumerate(helpers)\<close> loop of \<open>_sort_helpers\<close>: the index of
  the first helper that depends on no helper of the list, or \<open>None\<close> when the loop runs
  to its \<^verbatim>\<open>else\<close> branch.
\<close>

fun first_independent :: "helper list \<Rightarrow> nat \<Rightarrow> helper list \<Rightarrow> nat option" where
  "first_independent helpers j [] = None"
| "first_independent helpers j (helper # rest) =
     (if \<not> depends_on_any helper helpers then Some j
      else first_independent helpers (Suc j) rest)"

lemma first_independent_bound:
  "first_independent helpers j rest = Some k \<Longrightarrow> j \<le> k \<and> k < j + length rest"
  by (induction rest arbitrary: j) (fastforce split: if_splits)+

text \<open>
  \<^verbatim>\<open>helpers.insert(0, helpers.pop(j))\<close> moves the helper at index \<open>j\<close> to the front;
  \<^verbatim>\<open>helpers[1:] = _sort_helpers(helpers[1:])\<close> sorts what follows it.
\<close>

function sort_helpers :: "helper list \<Rightarrow> pyerror + helper list" where
  "sort_helpers helpers =
     (if length helpers > 1 then
        (case first_independent helpers 0 helpers of
           None \<Rightarrow> Inl ValueError
         | Some j \<Rightarrow>
             (case sort_helpers (take j helpers @ drop (Suc j) helpers) of
                Inl e \<Rightarrow> Inl e
              | Inr sorted_tail \<Rightarrow> Inr (helpers ! j # sorted_tail)))
      else Inr helpers)"
  by pat_completeness auto
termination
proof (relation "measure length")
  show "wf (measure length)" by simp
next
  fix helpers :: "helper list" and j
  assume "1 < length helpers" and "first_independent helpers 0 helpers = Some j"
  then have "j < length helpers"
    using first_independent_bound [of helpers 0 helpers j] by simp
  then show "(take j helpers @ drop (Suc j) helpers, helpers) \<in> measure length"
    by simp
qed

declare sort_helpers.simps [simp del]

text \<open>
  The dependency relation of a helper list, for stating what the sorter is given:
  a helper depends on another helper of the list when its expression contains the
  other's symbol.
\<close>

definition depends_rel :: "helper list \<Rightarrow> (helper \<times> helper) set" where
  "depends_rel helpers =
     {(a, b). a \<in> set helpers \<and> b \<in> set helpers \<and> has (snd a) (fst b)}"

subsection \<open>The Jacobian synthesizer\<close>

text \<open>
  \<^verbatim>\<open>sympy.simplify(., ratio=1.0)\<close> is a parameter \<open>simplify_fn\<close> of everything that
  calls it. The right-hand side \<^verbatim>\<open>f\<close> is a callable that yields the entries; the model
  takes the list it yields. \<open>dependent_helpers_of\<close> is the body of the outer
  \<^verbatim>\<open>for i in range(n)\<close> loop: the list \<^verbatim>\<open>dependent_helpers[i]\<close>, built helper by
  helper, \<open>helper_derivative\<close> being the value of \<^verbatim>\<open>derivative\<close> when the
  \<^verbatim>\<open>if derivative:\<close> test is reached.
\<close>

definition helper_derivative :: "nat \<Rightarrow> helper list \<Rightarrow> helper \<Rightarrow> expr" where
  "helper_derivative i dep_helpers helper =
     foldl (\<lambda>derivative other_helper.
              if has (snd helper) (fst other_helper)
              then sympy_add derivative
                     (sympy_mul (sympy_diff (snd helper) (fst other_helper)) (snd other_helper))
              else derivative)
           (if has (snd helper) (Y (int i)) then sympy_diff (snd helper) (Y (int i)) else Num 0)
           dep_helpers"

definition dependent_helpers_of :: "nat \<Rightarrow> helper list \<Rightarrow> helper list" where
  "dependent_helpers_of i helpers =
     foldl (\<lambda>dep_helpers helper.
              let derivative = helper_derivative i dep_helpers helper
              in if derivative \<noteq> Num 0 then dep_helpers @ [(fst helper, derivative)]
                 else dep_helpers)
           [] helpers"

definition jac_entry ::
  "(expr \<Rightarrow> expr) \<Rightarrow> helper list \<Rightarrow> bool \<Rightarrow> expr \<Rightarrow> nat \<Rightarrow> expr" where
  "jac_entry simplify_fn dep_helpers simplify f_entry j =
     (let entry = foldl (\<lambda>entry helper.
                           sympy_add entry (sympy_mul (sympy_diff f_entry (fst helper)) (snd helper)))
                        (sympy_diff f_entry (Y (int j))) dep_helpers
      in if simplify then simplify_fn entry else entry)"

definition jac_from_f_with_helpers ::
  "(expr \<Rightarrow> expr) \<Rightarrow> expr list \<Rightarrow> helper list \<Rightarrow> bool \<Rightarrow> nat \<Rightarrow> expr list list" where
  "jac_from_f_with_helpers simplify_fn f helpers simplify n =
     (let dependent_helpers = map (\<lambda>i. dependent_helpers_of i helpers) [0..<n]
      in map (\<lambda>f_entry.
                map (\<lambda>j. jac_entry simplify_fn (dependent_helpers ! j) simplify f_entry j)
                    [0..<n])
             f)"

subsection \<open>The code emitter (\<^verbatim>\<open>render_and_write_code\<close>)\<close>

text \<open>
  What the emitter is given to translate are calls \<^verbatim>\<open>set_dy(i, entry)\<close>,
  \<^verbatim>\<open>set_dfdy(i, j, entry)\<close> and \<^verbatim>\<open>set_<name>_helper(i, entry)\<close>: a function name,
  the indices, and the expression stored. The SymPy engine and the build tools are
  external; \<open>externals\<close> collects them as parameters of the model:
  the simplifier, the three uses of the C printer \<^verbatim>\<open>ccode\<close>, common-subexpression
  extraction, the directory \<^verbatim>\<open>mkdtemp\<close> returns, the text the source template renders
  to, whether the native build succeeds, and the integrator lookup of SciPy
  (\<open>None\<close>: no such integrator; \<open>Some b\<close>: found, and \<open>b\<close> tells whether its constructor
  takes \<^verbatim>\<open>with_jacobian\<close>).
\<close>

datatype assignment = Assign string "nat list" expr

record template_args =
  arg_n :: int
  arg_has_Jacobian :: bool
  arg_module_name :: string
  arg_has_helpers :: bool
  arg_number_of_f_helpers :: nat
  arg_number_of_jac_helpers :: nat
  arg_sparse_jac :: "bool option"

record externals =
  ext_simplify :: "expr \<Rightarrow> expr"
  ext_ccode :: "assignment \<Rightarrow> string"
  ext_ccode_expr :: "expr \<Rightarrow> string"
  ext_ccode_assign :: "expr \<Rightarrow> atom \<Rightarrow> string"
  ext_cse :: "expr list list \<Rightarrow> helper list \<times> expr list list"
  ext_mkdtemp :: string
  ext_render_template :: "template_args \<Rightarrow> string"
  ext_build_succeeds :: "string \<Rightarrow> string list \<Rightarrow> bool"
  ext_find_integrator :: "string \<Rightarrow> bool option"

type_synonym filesystem = "string \<rightharpoonup> string"

definition nl :: string where
  "nl = [CHR 0x0A]"

definition check_code :: "string \<Rightarrow> pyerror + string" where
  "check_code code = (if take 6 code = ''// Not'' then Inl TranslationError else Inr code)"

text \<open>A generator of lines, each passed through \<open>check_code\<close> with a suffix appended:
  the lines it yields, or the exception of the first line that fails.\<close>

fun checked_lines :: "string list \<Rightarrow> string \<Rightarrow> pyerror + string list" where
  "checked_lines [] suffix = Inr []"
| "checked_lines (code # codes) suffix =
     (case check_code code of
        Inl e \<Rightarrow> Inl e
      | Inr c \<Rightarrow> (case checked_lines codes suffix of
                    Inl e \<Rightarrow> Inl e
                  | Inr cs \<Rightarrow> Inr ((c @ suffix) # cs)))"

definition subs_assignment :: "assignment \<Rightarrow> (atom \<times> expr) list \<Rightarrow> assignment" where
  "subs_assignment a substitutions =
     (case a of Assign fname idx e \<Rightarrow> Assign fname idx (subs e substitutions))"

text \<open>
  Python binds arguments by position, whatever they are, and a wrong one fails where it
  is first used. The parameters of \<open>render_and_write_code\<close> that its callers fill by
  position are therefore values of a type of Python objects: a string, a dictionary, a
  callable from file names to paths, a producer of assignments, a list of helpers.
\<close>

datatype pyobject =
    PyStr string
  | PyDict "(string \<times> string) list"
  | PyCallable "string \<Rightarrow> string"
  | PyGenerator "assignment list"
  | PyHelpers "helper list"

text \<open>
  The emission proper: what \<open>render_and_write_code\<close> does once each argument is of the
  kind it uses it as. Three files are written: the accessor macros, the main file and
  the definitions file. \<open>emit_files\<close> is the choice between inline emission
  (\<^verbatim>\<open>chunk_size < 1\<close>) and the two calls of \<open>write_in_chunks\<close>. The result of the
  emitter is \<open>None\<close> if the call does not return, and else the exception raised or the
  file system it leaves.
\<close>

definition emit_files ::
  "string list \<Rightarrow> string list \<Rightarrow> string \<Rightarrow> string \<Rightarrow> string \<Rightarrow> int
     \<Rightarrow> (string \<times> string) list \<Rightarrow> (string \<times> string) list
     \<Rightarrow> (pyerror + string \<times> string) option" where
  "emit_files helperlines codelines mainfile helper_name code_name chunk_size
       helper_arguments arguments =
     (if chunk_size < 1 then Some (Inr (mainfile @ concat (helperlines @ codelines), []))
      else (case write_in_chunks helperlines mainfile [] helper_name chunk_size helper_arguments of
              None \<Rightarrow> None
            | Some (Inl e) \<Rightarrow> Some (Inl e)
            | Some (Inr (mainfile', deffile')) \<Rightarrow>
                write_in_chunks codelines mainfile' deffile' code_name chunk_size arguments))"

definition render_and_write_code ::
  "externals \<Rightarrow> pyobject \<Rightarrow> pyobject \<Rightarrow> pyobject \<Rightarrow> pyobject \<Rightarrow> pyobject \<Rightarrow> int
     \<Rightarrow> (string \<times> string) list \<Rightarrow> filesystem \<Rightarrow> (pyerror + filesystem) option" where
  "render_and_write_code ext expressions helpers tmpfile name user_functions chunk_size
       arguments fs =
     (case name of
        PyStr name_s \<Rightarrow>
          (case (helpers, user_functions, tmpfile, expressions) of
             (PyHelpers hs, PyDict _, PyCallable tmpfile_fn, PyGenerator es) \<Rightarrow>
               (let substitutions =
                      map (\<lambda>(i, helper). (fst helper, Atom (GetHelper name_s i)))
                          (enumerate 0 hs);
                    declare_text =
                      ''# define get_'' @ name_s @ ''_helper(i) (('' @ name_s @ ''_helper[i]))'' @ nl @
                      ''# define set_'' @ name_s @ ''_helper(i,value) ('' @ name_s
                        @ ''_helper[i] = value)'' @ nl;
                    fs1 = fs(tmpfile_fn (''declare_'' @ name_s @ ''_helpers.c'') \<mapsto> declare_text);
                    helper_codes =
                      map (\<lambda>(i, helper).
                             ext_ccode ext (Assign (''set_'' @ name_s @ ''_helper'') [i]
                                              (subs (snd helper) substitutions)))
                          (enumerate 0 hs);
                    codes = map (\<lambda>expression. ext_ccode ext (subs_assignment expression substitutions)) es;
                    mainfile0 =
                      (if hs \<noteq> []
                       then ''double '' @ name_s @ ''_helper['' @ decimal (length hs) @ ''];'' @ nl
                       else '''');
                    arguments' =
                      (if hs \<noteq> [] then arguments @ [(name_s @ ''_helper'', ''double*'')]
                       else arguments)
                in case checked_lines helper_codes ('';'' @ nl) of
                     Inl e \<Rightarrow> Some (Inl e)
                   | Inr helperlines \<Rightarrow>
                       (case checked_lines codes ('';'' @ nl) of
                          Inl e \<Rightarrow> Some (Inl e)
                        | Inr codelines \<Rightarrow>
                            (case emit_files helperlines codelines mainfile0
                                    (name_s @ ''_helper'') (name_s @ ''code'') chunk_size
                                    (tl arguments') arguments' of
                               None \<Rightarrow> None
                             | Some (Inl e) \<Rightarrow> Some (Inl e)
                             | Some (Inr (mainfile, deffile)) \<Rightarrow>
                                 Some (Inr (fs1(tmpfile_fn (name_s @ ''.c'') \<mapsto> mainfile,
                                          tmpfile_fn (name_s @ ''_definitions.c'') \<mapsto> deffile))))))
           | _ \<Rightarrow> Some (Inl TypeError))
      | _ \<Rightarrow> Some (Inl TypeError))"

text \<open>
  \<open>render_and_write_code_old\<close>, used for the general helpers: a declaration per helper
  symbol, then the helper assignments and the expressions, chunked with the names
  \<^verbatim>\<open>name + "helpers"\<close> and \<^verbatim>\<open>name + "code"\<close>.
\<close>

definition render_and_write_code_old ::
  "externals \<Rightarrow> assignment list \<Rightarrow> helper list \<Rightarrow> (string \<Rightarrow> string) \<Rightarrow> string \<Rightarrow> int
     \<Rightarrow> (string \<times> string) list \<Rightarrow> filesystem \<Rightarrow> (pyerror + filesystem) option" where
  "render_and_write_code_old ext expressions helpers tmpfile name chunk_size arguments fs =
     (let declarations =
            concat (map (\<lambda>helper. ''double '' @ ext_ccode_expr ext (Atom (fst helper)) @ '';'' @ nl)
                        helpers);
          fs1 = fs(tmpfile (''declare_'' @ name @ ''_helpers.c'') \<mapsto> declarations)
      in case checked_lines (map (\<lambda>helper. ext_ccode_assign ext (snd helper) (fst helper)) helpers) nl of
           Inl e \<Rightarrow> Some (Inl e)
         | Inr helperlines \<Rightarrow>
             (case checked_lines (map (ext_ccode ext) expressions) ('';'' @ nl) of
                Inl e \<Rightarrow> Some (Inl e)
              | Inr codelines \<Rightarrow>
                  (case emit_files helperlines codelines '''' (name @ ''helpers'') (name @ ''code'')
                          chunk_size (tl arguments) arguments of
                     None \<Rightarrow> None
                   | Some (Inl e) \<Rightarrow> Some (Inl e)
                   | Some (Inr (mainfile, deffile)) \<Rightarrow>
                       Some (Inr (fs1(tmpfile (name @ ''.c'') \<mapsto> mainfile,
                                tmpfile (name @ ''_definitions.c'') \<mapsto> deffile))))))"

subsection \<open>The integrator facade (\<^verbatim>\<open>class jitcode\<close>)\<close>

text \<open>
  \<^verbatim>\<open>f_sym\<close> is either a sequence of expressions or a generator function; the model of a
  generator function is the list of entries a call of it yields. \<^verbatim>\<open>entry.doit()\<close> and
  \<^verbatim>\<open>sympify\<close> change nothing in the expression language of this model.
\<close>

datatype f_input = Iterable "expr list" | GeneratorFunction "expr list"

fun handle_input :: "f_input \<Rightarrow> int option \<Rightarrow> pyerror + (expr list \<times> int)" where
  "handle_input (GeneratorFunction f_sym) n =
     Inr (f_sym, (case n of None \<Rightarrow> int (length f_sym)
                   | Some k \<Rightarrow> if k = 0 then int (length f_sym) else k))"
| "handle_input (Iterable f_sym) n =
     (let len_f = int (length f_sym)
      in (case n of
            Some k \<Rightarrow> if len_f \<noteq> k then Inl ValueError else Inr (f_sym, len_f)
          | None \<Rightarrow> Inr (f_sym, len_f)))"

definition sympify_helpers :: "helper list \<Rightarrow> helper list" where
  "sympify_helpers helpers = map (\<lambda>helper. (fst helper, snd helper)) helpers"

text \<open>
  The kinds of callable \<^verbatim>\<open>self.f\<close> and \<^verbatim>\<open>self.jac\<close> hold: \<^verbatim>\<open>None\<close>, a function of
  the compiled module, a lambdified function. An attribute that \<^verbatim>\<open>__init__\<close> does not
  create (\<^verbatim>\<open>t\<close>, \<^verbatim>\<open>_integrator\<close>, \<^verbatim>\<open>sparse_jac\<close>) is \<open>None\<close> until it is set. The
  symbolic Jacobian \<^verbatim>\<open>jac_sym\<close> is a generator: the rows it has still to yield.
\<close>

datatype pyfunc = PyNone | CFunction | PyLambda

record jitcode =
  self_f_sym :: "expr list"
  self_n :: int
  self_f :: pyfunc
  self_f_C_source :: bool
  self_helpers :: "helper list"
  self_wants_jacobian :: bool
  self_jac_sym :: "expr list list option"
  self_jac :: pyfunc
  self_jac_C_source :: bool
  self_y :: "real list"
  self_tmpdir :: "string option"
  self_modulename :: string
  self_verbose :: bool
  self_number_of_jac_helpers :: "nat option"
  self_number_of_f_helpers :: "nat option"
  self_sparse_jac :: "bool option"
  self_t :: "real option"
  self_integrator :: "string option"

definition jitcode_init ::
  "f_input \<Rightarrow> helper list option \<Rightarrow> bool \<Rightarrow> int option \<Rightarrow> bool \<Rightarrow> pyerror + jitcode" where
  "jitcode_init f_sym helpers wants_jacobian n verbose =
     (case handle_input f_sym n of
        Inl e \<Rightarrow> Inl e
      | Inr (f_sym', n') \<Rightarrow>
          (case sort_helpers (sympify_helpers (case helpers of None \<Rightarrow> [] | Some hs \<Rightarrow> hs)) of
             Inl e \<Rightarrow> Inl e
           | Inr sorted_helpers \<Rightarrow>
               Inr \<lparr> self_f_sym = f_sym', self_n = n', self_f = PyNone, self_f_C_source = False,
                     self_helpers = sorted_helpers, self_wants_jacobian = wants_jacobian,
                     self_jac_sym = None, self_jac = PyNone, self_jac_C_source = False,
                     self_y = [], self_tmpdir = None, self_modulename = ''jitced'',
                     self_verbose = verbose, self_number_of_jac_helpers = None,
                     self_number_of_f_helpers = None, self_sparse_jac = None,
                     self_t = None, self_integrator = None \<rparr>))"

text \<open>
  The process around an instance: the names in \<^verbatim>\<open>sys.modules\<close> and the files on disk.
  A method takes and returns the pair of process and instance. It returns, raises (the
  state is what the exception leaves behind), or does not return.
\<close>

record process =
  sys_modules :: "string list"
  fs_files :: filesystem

type_synonym state = "process \<times> jitcode"

datatype outcome = Returns state | Raises pyerror state | Diverges

definition and_then :: "outcome \<Rightarrow> (state \<Rightarrow> outcome) \<Rightarrow> outcome" where
  "and_then r k = (case r of Returns st \<Rightarrow> k st | Raises e st \<Rightarrow> Raises e st | Diverges \<Rightarrow> Diverges)"

definition tmpdir_of :: "externals \<Rightarrow> jitcode \<Rightarrow> string" where
  "tmpdir_of ext self = (case self_tmpdir self of None \<Rightarrow> ext_mkdtemp ext | Some d \<Rightarrow> d)"

definition tmpfile :: "externals \<Rightarrow> jitcode \<Rightarrow> string \<Rightarrow> string" where
  "tmpfile ext self filename = tmpdir_of ext self @ ''/'' @ filename"

text \<open>The effect of the first call of \<^verbatim>\<open>self._tmpfile\<close>: the directory exists from then on.\<close>

definition with_tmpdir :: "externals \<Rightarrow> jitcode \<Rightarrow> jitcode" where
  "with_tmpdir ext self = self\<lparr>self_tmpdir := Some (tmpdir_of ext self)\<rparr>"

definition generate_jac_sym :: "externals \<Rightarrow> bool \<Rightarrow> state \<Rightarrow> outcome" where
  "generate_jac_sym ext simplify st =
     (case st of (p, self) \<Rightarrow>
        Returns (p, self\<lparr>self_jac_sym :=
          Some (jac_from_f_with_helpers (ext_simplify ext) (self_f_sym self) (self_helpers self)
                  simplify (nat (self_n self)))\<rparr>))"

definition generate_jac_sym_if_needed :: "externals \<Rightarrow> state \<Rightarrow> outcome" where
  "generate_jac_sym_if_needed ext st =
     (if self_jac_sym (snd st) = None then generate_jac_sym ext True st else Returns st)"

text \<open>
  One call of the emitter from a method: the arguments in the positions the call site
  gives them, where \<^verbatim>\<open>self._tmpfile\<close> is the callable \<open>tmpfile ext self\<close>. If the
  emitter returns, it has called \<^verbatim>\<open>tmpfile\<close>, so the directory exists.
\<close>

definition call_emitter ::
  "(filesystem \<Rightarrow> (pyerror + filesystem) option) \<Rightarrow> externals \<Rightarrow> state \<Rightarrow> outcome" where
  "call_emitter emitter ext st =
     (case st of (p, self) \<Rightarrow>
        (case emitter (fs_files p) of
           None \<Rightarrow> Diverges
         | Some (Inl e) \<Rightarrow> Raises e st
         | Some (Inr fs) \<Rightarrow> Returns (p\<lparr>fs_files := fs\<rparr>, with_tmpdir ext self)))"

definition generate_f_C :: "externals \<Rightarrow> bool \<Rightarrow> bool \<Rightarrow> int \<Rightarrow> state \<Rightarrow> outcome" where
  "generate_f_C ext simplify do_cse chunk_size st =
     (let self = snd st;
          f_sym_wc = (if simplify then map (ext_simplify ext) (self_f_sym self) else self_f_sym self);
          arguments = [(''dY'', ''PyArrayObject*''), (''Y'', ''PyArrayObject*'')];
          more_helpers = fst (ext_cse ext (map (\<lambda>entry. [entry]) (self_f_sym self)));
          f_sym_cse = concat (snd (ext_cse ext (map (\<lambda>entry. [entry]) (self_f_sym self))));
          emit_main = (\<lambda>entries arguments st.
            and_then
              (call_emitter
                 (render_and_write_code ext
                    (PyGenerator (map (\<lambda>(i, entry). Assign ''set_dy'' [i] entry) (enumerate 0 entries)))
                    (PyCallable (tmpfile ext (snd st)))
                    (PyStr ''f'')
                    (PyDict [(''set_dy'', ''set_dy''), (''y'', ''y''), (''get_f_helper'', ''get_f_helper'')])
                    (PyDict [])
                    chunk_size arguments)
                 ext st)
              (\<lambda>(p, self). Returns (p, self\<lparr>self_f_C_source := True\<rparr>)))
      in if do_cse then
           (if more_helpers \<noteq> [] then
              and_then
                (call_emitter
                   (render_and_write_code ext
                      (PyGenerator (map (\<lambda>(i, helper). Assign ''set_f_helper'' [i] (snd helper))
                                        (enumerate 0 more_helpers)))
                      (PyCallable (tmpfile ext self))
                      (PyStr ''f_helpers'')
                      (PyDict [(''y'', ''y''), (''get_f_helper'', ''get_f_helper''),
                               (''set_f_helper'', ''set_f_helper'')])
                      (PyDict [])
                      chunk_size [(''Y'', ''PyArrayObject*''), (''f_helper'', ''double*'')])
                   ext st)
                (\<lambda>(p, self').
                   emit_main f_sym_cse (arguments @ [(''f_helper'', ''double*'')])
                     (p, self'\<lparr>self_number_of_f_helpers := Some (length more_helpers)\<rparr>))
            else emit_main f_sym_cse arguments st)
         else emit_main f_sym_wc arguments st)"

definition generate_f_C_if_needed :: "externals \<Rightarrow> state \<Rightarrow> outcome" where
  "generate_f_C_if_needed ext st =
     (if \<not> self_f_C_source (snd st) then generate_f_C ext True False 100 st else Returns st)"

text \<open>
  \<open>generate_jac_C\<close>. The producer handed to the emitter is the generator expression of
  the source: one \<^verbatim>\<open>set_dfdy(i, j, entry)\<close> per entry that is not the constant 0, or
  per entry at all when \<^verbatim>\<open>sparse\<close> is off.
\<close>

definition jac_assignments :: "bool \<Rightarrow> expr list list \<Rightarrow> assignment list" where
  "jac_assignments sparse_jac jac_sym_wc =
     concat (map (\<lambda>(i, line).
                    map (\<lambda>(j, entry). Assign ''set_dfdy'' [i, j] entry)
                        (filter (\<lambda>(j, entry). entry \<noteq> Num 0 \<or> \<not> sparse_jac) (enumerate 0 line)))
                 (enumerate 0 jac_sym_wc))"

definition generate_jac_C :: "externals \<Rightarrow> bool \<Rightarrow> int \<Rightarrow> bool \<Rightarrow> state \<Rightarrow> outcome" where
  "generate_jac_C ext do_cse chunk_size sparse st0 =
     and_then (generate_jac_sym_if_needed ext st0)
       (\<lambda>(p, self0).
          let jac_sym_wc = (case self_jac_sym self0 of Some rows \<Rightarrow> rows | None \<Rightarrow> []);
              self = self0\<lparr>self_sparse_jac := Some sparse\<rparr>;
              arguments = [(''dfdY'', ''PyArrayObject*''), (''Y'', ''PyArrayObject*'')];
              more_helpers = fst (ext_cse ext jac_sym_wc);
              jac_cse = snd (ext_cse ext jac_sym_wc);
              emit_main = (\<lambda>rows arguments st.
                and_then
                  (call_emitter
                     (render_and_write_code ext
                        (PyGenerator (jac_assignments sparse rows))
                        (PyCallable (tmpfile ext (snd st)))
                        (PyStr ''jac'')
                        (PyDict [(''set_dfdy'', ''set_dfdy''), (''y'', ''y''),
                                 (''get_jac_helper'', ''get_jac_helper'')])
                        (PyDict [])
                        chunk_size arguments)
                     ext st)
                  (\<lambda>(p, self). Returns (p, self\<lparr>self_jac_sym := Some [], self_jac_C_source := True\<rparr>)))
          in if do_cse then
               (if more_helpers \<noteq> [] then
                  and_then
                    (call_emitter
                       (render_and_write_code ext
                          (PyGenerator (map (\<lambda>(i, helper). Assign ''set_jac_helper'' [i] (snd helper))
                                            (enumerate 0 more_helpers)))
                          (PyCallable (tmpfile ext self))
                          (PyStr ''jac_helpers'')
                          (PyDict [(''y'', ''y''), (''get_jac_helper'', ''get_jac_helper''),
                                   (''set_jac_helper'', ''set_jac_helper'')])
                          (PyDict [])
                          chunk_size [(''Y'', ''PyArrayObject*''), (''jac_helper'', ''double*'')])
                       ext (p, self\<lparr>self_jac_sym := Some []\<rparr>))
                    (\<lambda>(p, self').
                       emit_main jac_cse (arguments @ [(''jac_helper'', ''double*'')])
                         (p, self'\<lparr>self_number_of_jac_helpers := Some (length more_helpers)\<rparr>))
                else emit_main jac_cse arguments (p, self\<lparr>self_jac_sym := Some []\<rparr>))
             else emit_main jac_sym_wc arguments (p, self))"

definition generate_jac_C_if_needed :: "externals \<Rightarrow> state \<Rightarrow> outcome" where
  "generate_jac_C_if_needed ext st =
     (if self_wants_jacobian (snd st) \<and> \<not> self_jac_C_source (snd st)
      then generate_jac_C ext False 100 True st else Returns st)"

definition generate_helpers_C :: "externals \<Rightarrow> int \<Rightarrow> state \<Rightarrow> outcome" where
  "generate_helpers_C ext chunk_size st =
     call_emitter
       (render_and_write_code_old ext [] (self_helpers (snd st)) (tmpfile ext (snd st)) ''general''
          chunk_size [])
       ext st"

definition generate_helpers_C_if_needed :: "externals \<Rightarrow> state \<Rightarrow> outcome" where
  "generate_helpers_C_if_needed ext st =
     (if self_helpers (snd st) \<noteq> [] then generate_helpers_C ext 100 st else Returns st)"

subsection \<open>Compiling and loading (\<^verbatim>\<open>compile_C\<close>)\<close>

text \<open>
  The \<^verbatim>\<open>while self._modulename in modules.keys()\<close> loop of \<open>compile_C\<close>: \<open>None\<close> if
  it does not end, and else the exception of \<open>count_up\<close> or the name found.
\<close>

partial_function (option) unused_modulename ::
  "string list \<Rightarrow> string \<Rightarrow> (pyerror + string) option" where
  "unused_modulename modules name =
     (if name \<in> set modules
      then (if isl (count_up name) then Some (Inl (projl (count_up name)))
            else unused_modulename modules (projr (count_up name)))
      else Some (Inr name))"

text \<open>
  \<open>compile_C\<close> after the three generation steps: the choice of the module name, the
  check for an existing module file, the source file rendered from the template, the
  native build, and loading. Loading a module enters its name into \<^verbatim>\<open>sys.modules\<close>
  (the import machinery of Python does that; the check of the requested name relies
  on it). A failed build raises. The module file the build leaves is recorded with a
  placeholder text: only its existence is ever asked for.
\<close>

definition build_and_load ::
  "externals \<Rightarrow> string list \<Rightarrow> string option \<Rightarrow> state \<Rightarrow> outcome" where
  "build_and_load ext extra_compile_args modulename st =
     (case st of (p, self0) \<Rightarrow>
        (case (if modulename \<noteq> None \<and> modulename \<noteq> Some ''''
               then (if the modulename \<in> set (sys_modules p) then Some (Inl NameError)
                     else Some (Inr (the modulename)))
               else unused_modulename (sys_modules p) (self_modulename self0)) of
           None \<Rightarrow> Diverges
         | Some (Inl e) \<Rightarrow> Raises e st
         | Some (Inr chosen) \<Rightarrow>
             (let self1 = with_tmpdir ext (self0\<lparr>self_modulename := chosen\<rparr>);
                  sourcefile = tmpfile ext self1 (chosen @ ''.c'');
                  modulefile = tmpfile ext self1 (chosen @ ''.so'')
              in if fs_files p modulefile \<noteq> None then Raises OSError (p, self1)
                 else
                   (let source = ext_render_template ext
                          \<lparr> arg_n = self_n self1, arg_has_Jacobian = self_jac_C_source self1,
                            arg_module_name = chosen, arg_has_helpers = (self_helpers self1 \<noteq> []),
                            arg_number_of_f_helpers =
                              (case self_number_of_f_helpers self1 of None \<Rightarrow> 0 | Some k \<Rightarrow> k),
                            arg_number_of_jac_helpers =
                              (case self_number_of_jac_helpers self1 of None \<Rightarrow> 0 | Some k \<Rightarrow> k),
                            arg_sparse_jac =
                              (if self_jac_C_source self1 then self_sparse_jac self1 else None) \<rparr>;
                        p1 = p\<lparr>fs_files := (fs_files p)(sourcefile \<mapsto> source)\<rparr>
                    in if \<not> ext_build_succeeds ext source extra_compile_args
                       then Raises BuildError (p1, self1)
                       else Returns
                         (p1\<lparr>fs_files := (fs_files p1)(modulefile \<mapsto> ext_mkdtemp ext),
                              sys_modules := chosen # sys_modules p1\<rparr>,
                          self1\<lparr>self_f := CFunction,
                                 self_jac := (if self_jac_C_source self1 then CFunction
                                              else self_jac self1)\<rparr>)))))"

definition compile_C ::
  "externals \<Rightarrow> string list \<Rightarrow> string option \<Rightarrow> state \<Rightarrow> outcome" where
  "compile_C ext extra_compile_args modulename st =
     and_then (generate_f_C_if_needed ext st) (\<lambda>st.
     and_then (generate_jac_C_if_needed ext st) (\<lambda>st.
     and_then (generate_helpers_C_if_needed ext st) (\<lambda>st.
       build_and_load ext extra_compile_args modulename st)))"

definition DEFAULT_COMPILE_ARGS :: "string list" where
  "DEFAULT_COMPILE_ARGS =
     [''-Ofast'', ''-g0'', ''-march=native'', ''-mtune=native'', ''-Wno-unknown-pragmas'']"

definition compile_C_if_needed :: "externals \<Rightarrow> state \<Rightarrow> outcome" where
  "compile_C_if_needed ext st =
     (if self_f (snd st) \<noteq> CFunction \<or>
         (self_wants_jacobian (snd st) \<and> self_jac (snd st) \<noteq> CFunction)
      then compile_C ext DEFAULT_COMPILE_ARGS None st else Returns st)"

subsection \<open>The lambdified fallback\<close>

text \<open>
  \<^verbatim>\<open>sympy.lambdify\<close> is external; what the model keeps of a lambdified function is its
  kind. Building the Jacobian matrix reads the generator \<^verbatim>\<open>jac_sym\<close> to its end.
\<close>

definition generate_f_lambda :: "state \<Rightarrow> outcome" where
  "generate_f_lambda st = (case st of (p, self) \<Rightarrow> Returns (p, self\<lparr>self_f := PyLambda\<rparr>))"

definition generate_jac_lambda :: "externals \<Rightarrow> state \<Rightarrow> outcome" where
  "generate_jac_lambda ext st =
     and_then (generate_jac_sym_if_needed ext st)
       (\<lambda>(p, self). Returns (p, self\<lparr>self_jac_sym := Some [], self_jac := PyLambda\<rparr>))"

definition generate_lambdas :: "externals \<Rightarrow> state \<Rightarrow> outcome" where
  "generate_lambdas ext st =
     and_then (if self_f (snd st) \<noteq> PyLambda then generate_f_lambda st else Returns st)
       (\<lambda>st. if self_wants_jacobian (snd st)
              then (if self_jac (snd st) \<noteq> PyLambda then generate_jac_lambda ext st else Returns st)
              else Returns st)"

text \<open>\<open>generate_functions\<close>: \<^verbatim>\<open>try: self._compile_C()\<close>, and on any exception the
  lambdified functions.\<close>

definition generate_functions :: "externals \<Rightarrow> state \<Rightarrow> outcome" where
  "generate_functions ext st =
     (case compile_C_if_needed ext st of
        Returns st' \<Rightarrow> Returns st'
      | Raises e st' \<Rightarrow> generate_lambdas ext st'
      | Diverges \<Rightarrow> Diverges)"

definition generate_functions_if_needed :: "externals \<Rightarrow> state \<Rightarrow> outcome" where
  "generate_functions_if_needed ext st =
     (if self_f (snd st) = PyNone \<or> (self_wants_jacobian (snd st) \<and> self_jac (snd st) = PyNone)
      then generate_functions ext st else Returns st)"

subsection \<open>Choosing the integrator\<close>

text \<open>
  The base class \<^verbatim>\<open>scipy.integrate.ode\<close> is external. Of its three methods the facade
  calls, the model keeps what they do to the attributes the facade reads:
  \<^verbatim>\<open>ode.__init__\<close> empties \<^verbatim>\<open>_y\<close>; \<^verbatim>\<open>ode.set_integrator\<close> stores the integrator if
  one of that name exists, and then gives an empty \<^verbatim>\<open>_y\<close> the placeholder
  \<^verbatim>\<open>t = 0.0, _y = [0.0]\<close>; \<^verbatim>\<open>ode.set_initial_value\<close> calls
  \<^verbatim>\<open>self.set_integrator('')\<close> while \<^verbatim>\<open>_y\<close> is empty, reads the scalar type of
  \<^verbatim>\<open>self._integrator\<close> (an attribute error if there is none) and stores \<^verbatim>\<open>_y\<close> and
  \<^verbatim>\<open>t\<close>. The call \<^verbatim>\<open>self.set_integrator\<close> is the method of the facade; it is a
  parameter here. State vectors are lists of reals, and \<^verbatim>\<open>asarray\<close> to the real
  scalar type leaves them as they are. \<open>_can_use_jacobian\<close> inspects the constructor of
  the integrator found; for a name with no integrator it inspects the constructor of
  \<^verbatim>\<open>None\<close>, which has no argument \<^verbatim>\<open>with_jacobian\<close>.
\<close>

definition ode_init :: "state \<Rightarrow> state" where
  "ode_init st = (case st of (p, self) \<Rightarrow> (p, self\<lparr>self_y := []\<rparr>))"

definition ode_set_integrator :: "externals \<Rightarrow> string \<Rightarrow> state \<Rightarrow> state" where
  "ode_set_integrator ext name st =
     (case st of (p, self) \<Rightarrow>
        (case ext_find_integrator ext name of
           None \<Rightarrow> st
         | Some _ \<Rightarrow>
             (let self1 = self\<lparr>self_integrator := Some name\<rparr>
              in if self_y self1 = [] then (p, self1\<lparr>self_t := Some 0, self_y := [0]\<rparr>)
                 else (p, self1))))"

definition ode_set_initial_value ::
  "(string \<Rightarrow> state \<Rightarrow> outcome) \<Rightarrow> real list \<Rightarrow> real \<Rightarrow> state \<Rightarrow> outcome" where
  "ode_set_initial_value self_set_integrator y t st =
     and_then (if self_y (snd st) = [] then self_set_integrator '''' st else Returns st)
       (\<lambda>(p, self).
          if self_integrator self = None then Raises AttributeError (p, self)
          else Returns (p, self\<lparr>self_y := y, self_t := Some t\<rparr>))"

definition can_use_jacobian :: "externals \<Rightarrow> string \<Rightarrow> pyerror + bool" where
  "can_use_jacobian ext integratorname =
     (case ext_find_integrator ext integratorname of
        None \<Rightarrow> Inr False
      | Some with_jacobian \<Rightarrow> Inr with_jacobian)"

text \<open>
  \<open>set_integrator\<close>. The first argument bounds the depth of the calls through
  \<^verbatim>\<open>ode.set_initial_value\<close> back into \<open>set_integrator\<close>; at depth 0 the interpreter
  gives up with a recursion error.
\<close>

primrec set_integrator :: "nat \<Rightarrow> externals \<Rightarrow> string \<Rightarrow> state \<Rightarrow> outcome" where
  "set_integrator 0 ext name st = Raises RecursionError st"
| "set_integrator (Suc depth) ext name st =
     (if name = ''zvode'' then Raises NotImplementedError st
      else (case can_use_jacobian ext name of
              Inl e \<Rightarrow> Raises e st
            | Inr b \<Rightarrow>
                and_then
                  (generate_functions_if_needed ext
                     (fst st, (snd st)\<lparr>self_wants_jacobian := self_wants_jacobian (snd st) \<or> b\<rparr>))
                  (\<lambda>st1.
                     (case self_t (snd st1) of
                        None \<Rightarrow> Returns (ode_set_integrator ext name (ode_init st1))
                      | Some save_t \<Rightarrow>
                          (let save_y = self_y (snd st1)
                           in ode_set_initial_value (set_integrator depth ext) save_y save_t
                                (ode_set_integrator ext name (ode_init st1)))))))"

definition set_initial_value :: "nat \<Rightarrow> externals \<Rightarrow> real list \<Rightarrow> real \<Rightarrow> state \<Rightarrow> outcome" where
  "set_initial_value depth ext y t st =
     (if self_n (snd st) \<noteq> int (length y) then Raises ValueError st
      else ode_set_initial_value (set_integrator depth ext) y t st)"

subsection \<open>The tangent-space extension (\<^verbatim>\<open>class jitcode_lyap\<close>)\<close>

record jitcode_lyap = jitcode +
  self_n_basic :: int
  self_n_lyap :: int

text \<open>The generator function \<^verbatim>\<open>f_lyap\<close> of \<^verbatim>\<open>jitcode_lyap.__init__\<close>: the entries it
  yields.\<close>

definition f_lyap :: "externals \<Rightarrow> expr list \<Rightarrow> helper list \<Rightarrow> int \<Rightarrow> int \<Rightarrow> expr list" where
  "f_lyap ext f_basic helpers n n_lyap =
     f_basic @
     concat (map (\<lambda>i.
                    map (\<lambda>line.
                           ext_simplify ext
                             (foldl (\<lambda>total (k, entry).
                                       sympy_add total
                                         (sympy_mul entry (Atom (Y (int k + (int i + 1) * n)))))
                                    (Num 0) (enumerate 0 line)))
                        (jac_from_f_with_helpers (ext_simplify ext) f_basic helpers False (nat n)))
                 [0..<nat n_lyap])"

definition jitcode_lyap_init ::
  "externals \<Rightarrow> f_input \<Rightarrow> helper list option \<Rightarrow> bool \<Rightarrow> int option \<Rightarrow> int
     \<Rightarrow> pyerror + jitcode_lyap" where
  "jitcode_lyap_init ext f_sym helpers wants_jacobian n n_lyap =
     (case handle_input f_sym n of
        Inl e \<Rightarrow> Inl e
      | Inr (f_basic, n') \<Rightarrow>
          (let n_lyap' = (if n_lyap < 0 \<or> n_lyap > n' then n' else n_lyap)
           in case sort_helpers (sympify_helpers (case helpers of None \<Rightarrow> [] | Some hs \<Rightarrow> hs)) of
                Inl e \<Rightarrow> Inl e
              | Inr helpers' \<Rightarrow>
                  (case jitcode_init (GeneratorFunction (f_lyap ext f_basic helpers' n' n_lyap'))
                          (Some helpers') wants_jacobian (Some (n_lyap' * (n' + 1))) True of
                     Inl e \<Rightarrow> Inl e
                   | Inr base \<Rightarrow>
                       Inr (jitcode.extend base
                              \<lparr> self_n_basic = n', self_n_lyap = n_lyap' \<rparr>))))"

subsection \<open>Numerical tools (\<^verbatim>\<open>orthonormalise\<close>)\<close>

text \<open>
  Vectors are lists of reals: the claim about \<open>orthonormalise\<close> is one of exact
  arithmetic. \<^verbatim>\<open>np.dot\<close> of two one-dimensional arrays is the sum of the products of
  their entries and raises for arrays of different lengths; \<^verbatim>\<open>np.linalg.norm\<close> is the
  root of the dot product of a vector with itself.
\<close>

type_synonym vec = "real list"

definition dot :: "vec \<Rightarrow> vec \<Rightarrow> real" where
  "dot u v = sum_list (map2 (*) u v)"

definition vnorm :: "vec \<Rightarrow> real" where
  "vnorm v = sqrt (dot v v)"

text \<open>
  The inner loop \<^verbatim>\<open>for j in range(i): vector -= np.dot(vector, vectors[j]) * vectors[j]\<close>.
  The vectors before index \<open>i\<close> are the ones the outer loop has already rewritten in
  place; the second argument is that part of the list, in index order.
\<close>

fun orthogonalise :: "vec \<Rightarrow> vec list \<Rightarrow> pyerror + vec" where
  "orthogonalise vector [] = Inr vector"
| "orthogonalise vector (q # qs) =
     (if length vector \<noteq> length q then Inl ValueError
      else orthogonalise (map2 (\<lambda>a b. a - dot vector q * b) vector q) qs)"

text \<open>
  The outer loop over \<^verbatim>\<open>enumerate(vectors)\<close>: the vectors already rewritten, the vectors
  still to come, and the norms collected. The arrays of the list are taken to be
  different objects that share no memory. Where the norm is 0, NumPy divides to
  \<^verbatim>\<open>nan\<close> entries; exact arithmetic has no quotient there, and the model raises.
\<close>

fun orthonormalise_loop :: "vec list \<Rightarrow> vec list \<Rightarrow> real list \<Rightarrow> pyerror + vec list \<times> real list" where
  "orthonormalise_loop rewritten [] norms = Inr (rewritten, norms)"
| "orthonormalise_loop rewritten (vector # rest) norms =
     (case orthogonalise vector rewritten of
        Inl e \<Rightarrow> Inl e
      | Inr w \<Rightarrow>
          (let norm_w = vnorm w
           in if norm_w = 0 then Inl ZeroDivisionError
              else orthonormalise_loop (rewritten @ [map (\<lambda>x. x / norm_w) w]) rest
                     (norms @ [norm_w])))"

text \<open>\<open>orthonormalise\<close> returns the norms; the model returns the rewritten vectors with
  them, since the caller reads them from the arrays it passed.\<close>

definition orthonormalise :: "vec list \<Rightarrow> pyerror + vec list \<times> real list" where
  "orthonormalise vectors = orthonormalise_loop [] vectors []"

text \<open>
  Linear independence of a list of vectors of dimension \<open>d\<close>: the only linear combination
  that gives the zero vector has all coefficients 0.
\<close>

definition vadd :: "vec \<Rightarrow> vec \<Rightarrow> vec" where
  "vadd u v = map2 (+) u v"

definition smult :: "real \<Rightarrow> vec \<Rightarrow> vec" where
  "smult c v = map (\<lambda>x. c * x) v"

fun lincomb :: "nat \<Rightarrow> real list \<Rightarrow> vec list \<Rightarrow> vec" where
  "lincomb d (c # cs) (v # vs) = vadd (smult c v) (lincomb d cs vs)"
| "lincomb d cs vs = replicate d 0"

definition linearly_independent :: "nat \<Rightarrow> vec list \<Rightarrow> bool" where
  "linearly_independent d vs =
     ((\<forall>v\<in>set vs. length v = d) \<and>
      (\<forall>cs. length cs = length vs \<and> lincomb d cs vs = replicate d 0 \<longrightarrow> (\<forall>c\<in>set cs. c = 0)))"

text \<open>The span of a list of vectors, for the proofs: the linear combinations of the list.\<close>

definition in_span :: "nat \<Rightarrow> vec list \<Rightarrow> vec \<Rightarrow> bool" where
  "in_span d us x = (\<exists>cs. length cs = length us \<and> x = lincomb d cs us)"

subsection \<open>Auxiliary predicates\<close>

text \<open>For the frame property of \<open>set_integrator\<close>: a call finishes (it returns or
  raises) in a state with the same time and state vector.\<close>

definition same_t_y :: "state \<Rightarrow> state \<Rightarrow> bool" where
  "same_t_y st st' = (self_t (snd st') = self_t (snd st) \<and> self_y (snd st') = self_y (snd st))"

definition finishes_keeping_t_y :: "state \<Rightarrow> outcome \<Rightarrow> bool" where
  "finishes_keeping_t_y st r =
     (case r of Returns st' \<Rightarrow> same_t_y st st' | Raises e st' \<Rightarrow> same_t_y st st'
      | Diverges \<Rightarrow> False)"

text \<open>A call made after a call that raised, as a caller that catches the exception makes
  it: in the state the exception left behind.\<close>

definition and_then_raised :: "outcome \<Rightarrow> (state \<Rightarrow> outcome) \<Rightarrow> outcome" where
  "and_then_raised r k = (case r of Raises e st \<Rightarrow> k st | Returns st \<Rightarrow> k st | Diverges \<Rightarrow> Diverges)"

subsection \<open>A concrete setting\<close>

text \<open>
  An instance of the external parameters, a process and a facade instance, for
  evaluating the model: the simplifier is the identity, the C printer prints nothing,
  the build succeeds, and SciPy knows the integrators \<^verbatim>\<open>vode\<close> and \<^verbatim>\<open>lsoda\<close> (which
  take a Jacobian) and \<^verbatim>\<open>dopri5\<close> (which does not); the empty name matches the
  first of them. The instance is the harmonic oscillator \<open>[y(1), -y(0)]\<close> after
  \<^verbatim>\<open>set_initial_value([1, 0], 2)\<close>.
\<close>

definition ext_example :: externals where
  "ext_example =
     \<lparr> ext_simplify = (\<lambda>e. e), ext_ccode = (\<lambda>a. ''''), ext_ccode_expr = (\<lambda>e. ''''),
       ext_ccode_assign = (\<lambda>e a. ''''), ext_cse = (\<lambda>rows. ([], rows)),
       ext_mkdtemp = ''/tmp/tmpjitcode'', ext_render_template = (\<lambda>args. ''''),
       ext_build_succeeds = (\<lambda>source args. True),
       ext_find_integrator =
         (\<lambda>name. if name = '''' \<or> name = ''vode'' \<or> name = ''lsoda'' then Some True
                  else if name = ''dopri5'' then Some False else None) \<rparr>"

definition process_example :: process where
  "process_example = \<lparr> sys_modules = [''sys'', ''jitcode''], fs_files = Map.empty \<rparr>"

definition jitcode_example :: jitcode where
  "jitcode_example =
     \<lparr> self_f_sym = [Atom (Y 1), Mul (Num (- 1)) (Atom (Y 0))], self_n = 2, self_f = PyLambda,
       self_f_C_source = False, self_helpers = [], self_wants_jacobian = True,
       self_jac_sym = Some [], self_jac = PyLambda, self_jac_C_source = False,
       self_y = [1, 0], self_tmpdir = None, self_modulename = ''jitced'',
       self_verbose = True, self_number_of_jac_helpers = None,
       self_number_of_f_helpers = None, self_sparse_jac = None,
       self_t = Some 2, self_integrator = Some '''' \<rparr>"


section \<open>Properties\<close>

subsection \<open>Counting names up\<close>

lemma rsplit_int_no_digit:
  "s = [] \<or> \<not> isdigit (last s) \<Longrightarrow> rsplit_int s = (s, [])"
  by (subst rsplit_int.simps) auto

lemma rsplit_int_snoc:
  "isdigit c \<Longrightarrow> rsplit_int (s @ [c]) = (fst (rsplit_int s), snd (rsplit_int s) @ [c])"
  by (subst rsplit_int.simps) (simp add: case_prod_beta)

lemma rsplit_int_append:
  "stem = [] \<or> \<not> isdigit (last stem) \<Longrightarrow> \<forall>c\<in>set d. isdigit c \<Longrightarrow>
   rsplit_int (stem @ d) = (stem, d)"
proof (induction d rule: rev_induct)
  case Nil
  then show ?case by (simp add: rsplit_int_no_digit)
next
  case (snoc c d)
  then have "rsplit_int ((stem @ d) @ [c]) = (stem, d @ [c])"
    by (subst rsplit_int_snoc) auto
  then show ?case by simp
qed

lemma digit_char_cases:
  "d < 10 \<Longrightarrow> d = 0 \<or> d = 1 \<or> d = 2 \<or> d = 3 \<or> d = 4 \<or> d = 5 \<or> d = 6 \<or> d = 7 \<or> d = 8 \<or> d = (9::nat)"
  by arith

lemma digit_value_digit_char: "d < 10 \<Longrightarrow> digit_value (digit_char d) = d"
  using digit_char_cases [of d] by (auto simp: digit_value_def digit_char_def)

lemma isdecimal_digit_char: "d < 10 \<Longrightarrow> isdecimal (digit_char d)"
  using digit_char_cases [of d] by (auto simp: isdecimal_def digit_char_def)

lemma isdecimal_isdigit: "isdecimal c \<Longrightarrow> isdigit c"
  by (simp add: isdigit_def)

lemma decimal_value_snoc: "decimal_value (ds @ [c]) = 10 * decimal_value ds + digit_value c"
  by (simp add: decimal_value_def)

lemma decimal_value_decimal: "decimal_value (decimal k) = k"
proof (induction k rule: decimal.induct)
  case (1 k)
  show ?case
  proof (cases "k < 10")
    case True
    then show ?thesis
      by (subst decimal.simps) (simp add: decimal_value_def digit_value_digit_char)
  next
    case False
    with 1 have "decimal_value (decimal (k div 10)) = k div 10" by simp
    with False show ?thesis
      by (subst decimal.simps) (simp add: decimal_value_snoc digit_value_digit_char)
  qed
qed

lemma decimal_digits: "\<forall>c\<in>set (decimal k). isdecimal c"
proof (induction k rule: decimal.induct)
  case (1 k)
  show ?case
  proof (cases "k < 10")
    case True
    then show ?thesis
      by (subst decimal.simps) (simp add: isdecimal_digit_char)
  next
    case False
    with 1 have "\<forall>c\<in>set (decimal (k div 10)). isdecimal c" by simp
    with False show ?thesis
      by (subst decimal.simps) (simp add: isdecimal_digit_char)
  qed
qed

lemma decimal_nonempty: "decimal k \<noteq> []"
  by (subst decimal.simps) simp

lemma length_decimal_mono: "k \<le> m \<Longrightarrow> length (decimal k) \<le> length (decimal m)"
proof (induction m arbitrary: k rule: decimal.induct)
  case (1 m)
  show ?case
  proof (cases "m < 10")
    case True
    with 1(2) have "k < 10" by simp
    with True show ?thesis
      by (simp add: decimal.simps [of k] decimal.simps [of m])
  next
    case False
    show ?thesis
    proof (cases "k < 10")
      case True
      with False show ?thesis
        using decimal_nonempty [of "m div 10"]
        by (simp add: decimal.simps [of k] decimal.simps [of m] Suc_le_eq)
    next
      case k: False
      from 1(2) have "k div 10 \<le> m div 10" by (rule div_le_mono)
      with 1(1) False have "length (decimal (k div 10)) \<le> length (decimal (m div 10))" by simp
      with k False show ?thesis
        by (simp add: decimal.simps [of k] decimal.simps [of m])
    qed
  qed
qed

lemma decimal_value_replicate_zero: "decimal_value (replicate n CHR ''0'' @ ds) = decimal_value ds"
proof -
  have "foldl (\<lambda>a c. 10 * a + digit_value c) 0 (replicate n CHR ''0'') = 0"
    by (induction n) (simp_all add: digit_value_def)
  then show ?thesis by (simp add: decimal_value_def)
qed

lemma decimal_value_format_prec: "decimal_value (format_prec p k) = k"
  by (simp add: format_prec_def decimal_value_replicate_zero decimal_value_decimal)


lemma underscore_no_digit: "\<not> isdigit CHR ''_''"
  by (simp add: isdigit_def isdecimal_def)

lemma format_prec_digits: "\<forall>c\<in>set (format_prec p k). isdecimal c"
proof
  fix c assume "c \<in> set (format_prec p k)"
  then have "c = CHR ''0'' \<or> c \<in> set (decimal k)"
    by (auto simp: format_prec_def)
  moreover have "isdecimal CHR ''0''" by (simp add: isdecimal_def)
  ultimately show "isdecimal c"
    using decimal_digits [of k] by blast
qed

lemma py_int_decimal_digits:
  "d \<noteq> [] \<Longrightarrow> \<forall>c\<in>set d. isdecimal c \<Longrightarrow> py_int d = Inr (decimal_value d)"
  by (simp add: py_int_def list_all_iff)

lemma py_int_other_digit:
  "\<exists>c\<in>set d. \<not> isdecimal c \<Longrightarrow> py_int d = Inl ValueError"
  by (auto simp: py_int_def list_all_iff)

lemma count_up_digits:
  assumes "rsplit_int name = (stem, d)" and "d \<noteq> []" and "\<forall>c\<in>set d. isdecimal c"
  shows "count_up name = Inr (stem @ format_prec (length d) (decimal_value d + 1))"
  using assms by (simp add: count_up_def py_int_decimal_digits)

lemma count_up_plain:
  assumes "rsplit_int name = (stem, [])"
  shows "count_up name = Inr (stem @ ''_1'')"
  using assms by (simp add: count_up_def)


lemma count_up_numbered:
  "count_up (name @ ''_'' @ decimal (Suc k)) = Inr (name @ ''_'' @ decimal (Suc (Suc k)))"
proof -
  have digits: "\<forall>c\<in>set (decimal (Suc k)). isdigit c"
    using decimal_digits [of "Suc k"] by (auto intro: isdecimal_isdigit)
  have "rsplit_int ((name @ ''_'') @ decimal (Suc k)) = (name @ ''_'', decimal (Suc k))"
    using digits by (intro rsplit_int_append) (simp_all add: underscore_no_digit)
  then have "count_up ((name @ ''_'') @ decimal (Suc k)) =
      Inr ((name @ ''_'') @ format_prec (length (decimal (Suc k))) (decimal_value (decimal (Suc k)) + 1))"
    using decimal_nonempty decimal_digits by (rule count_up_digits)
  moreover have "length (decimal (Suc k)) \<le> length (decimal (Suc (Suc k)))"
    by (rule length_decimal_mono) simp
  ultimately show ?thesis
    by (simp add: format_prec_def decimal_value_decimal)
qed





subsection \<open>Chunked emission\<close>

lemma rsplit_int_props:
  "rsplit_int s = (x, y) \<Longrightarrow>
     s = x @ y \<and> (\<forall>c\<in>set y. isdigit c) \<and> (x = [] \<or> \<not> isdigit (last x))"
proof (induction s arbitrary: x y rule: rsplit_int.induct)
  case (1 s)
  show ?case
  proof (cases "s \<noteq> [] \<and> isdigit (last s)")
    case True
    obtain x' y' where r: "rsplit_int (butlast s) = (x', y')"
      by (cases "rsplit_int (butlast s)")
    from True r "1.prems" have xy: "x = x'" "y = y' @ [last s]"
      by (simp_all add: rsplit_int.simps [of s])
    from "1.IH" [OF True r]
    have ih: "butlast s = x' @ y'" "\<forall>c\<in>set y'. isdigit c" "x' = [] \<or> \<not> isdigit (last x')"
      by simp_all
    from True have "s = butlast s @ [last s]" by simp
    with ih(1) have "s = x' @ y' @ [last s]" by simp
    with xy ih True show ?thesis by simp
  next
    case False
    with "1.prems" have "x = s" "y = []"
      by (simp_all add: rsplit_int.simps [of s])
    with False show ?thesis by auto
  qed
qed

text \<open>The number a name ends in (0 if it ends in none) grows by one with \<open>count_up\<close>.\<close>

lemma count_up_Inr_cases:
  assumes "count_up s = Inr r"
  obtains x y where "rsplit_int s = (x, y)" and "x = [] \<or> \<not> isdigit (last x)"
    and "y = [] \<and> r = x @ ''_1'' \<or>
         y \<noteq> [] \<and> (\<forall>c\<in>set y. isdecimal c) \<and> r = x @ format_prec (length y) (decimal_value y + 1)"
proof -
  obtain x y where xy: "rsplit_int s = (x, y)" by (cases "rsplit_int s")
  from rsplit_int_props [OF xy] have x: "x = [] \<or> \<not> isdigit (last x)" by simp
  show ?thesis
  proof (cases "y = []")
    case True
    with assms xy have "r = x @ ''_1''" by (simp add: count_up_def)
    with True xy x that show ?thesis by blast
  next
    case False
    with assms xy have p: "py_int y \<noteq> Inl ValueError"
      by (auto simp: count_up_def split: sum.splits)
    then have dec: "\<forall>c\<in>set y. isdecimal c"
      using py_int_other_digit [of y] by blast
    with False assms xy have "r = x @ format_prec (length y) (decimal_value y + 1)"
      by (simp add: count_up_def py_int_decimal_digits)
    with False dec xy x that show ?thesis by blast
  qed
qed

lemma count_up_counter:
  assumes "count_up s = Inr r"
  shows "decimal_value (snd (rsplit_int r)) = decimal_value (snd (rsplit_int s)) + 1"
proof -
  from assms obtain x y where xy: "rsplit_int s = (x, y)" and x: "x = [] \<or> \<not> isdigit (last x)"
    and r: "y = [] \<and> r = x @ ''_1'' \<or>
         y \<noteq> [] \<and> (\<forall>c\<in>set y. isdecimal c) \<and> r = x @ format_prec (length y) (decimal_value y + 1)"
    by (rule count_up_Inr_cases)
  from r show ?thesis
  proof
    assume a: "y = [] \<and> r = x @ ''_1''"
    have "rsplit_int ((x @ ''_'') @ ''1'') = (x @ ''_'', ''1'')"
      by (rule rsplit_int_append) (simp_all add: isdigit_def isdecimal_def)
    with a xy show ?thesis
      by (simp add: decimal_value_def digit_value_def)
  next
    assume a: "y \<noteq> [] \<and> (\<forall>c\<in>set y. isdecimal c) \<and>
      r = x @ format_prec (length y) (decimal_value y + 1)"
    have "\<forall>c\<in>set (format_prec (length y) (decimal_value y + 1)). isdigit c"
      using format_prec_digits by (auto intro: isdecimal_isdigit)
    with x have "rsplit_int (x @ format_prec (length y) (decimal_value y + 1))
            = (x, format_prec (length y) (decimal_value y + 1))"
      by (rule rsplit_int_append)
    with a xy show ?thesis
      by (simp add: decimal_value_format_prec)
  qed
qed

lemma count_up_neq: "count_up s = Inr r \<Longrightarrow> r \<noteq> s"
  using count_up_counter [of s r] by auto

lemma count_up_twice_neq: "count_up s = Inr r \<Longrightarrow> count_up r = Inr r' \<Longrightarrow> r' \<noteq> s"
  using count_up_counter [of s r] count_up_counter [of r r'] by auto

text \<open>A name without superscript digits is counted up to a name without superscript
  digits: counting such a name up never raises.\<close>

lemma count_up_no_superscript:
  assumes "\<forall>c\<in>set s. isdigit c \<longrightarrow> isdecimal c"
  shows "\<exists>r. count_up s = Inr r \<and> (\<forall>c\<in>set r. isdigit c \<longrightarrow> isdecimal c)"
proof -
  obtain x y where xy: "rsplit_int s = (x, y)" by (cases "rsplit_int s")
  from rsplit_int_props [OF xy] have s: "s = x @ y" and y: "\<forall>c\<in>set y. isdigit c" by simp_all
  from s y assms have dec: "\<forall>c\<in>set y. isdecimal c" by auto
  from s assms have px: "\<forall>c\<in>set x. isdigit c \<longrightarrow> isdecimal c" by auto
  show ?thesis
  proof (cases "y = []")
    case True
    with xy have "count_up s = Inr (x @ ''_1'')" by (simp add: count_up_def)
    moreover have "\<forall>c\<in>set (x @ ''_1''). isdigit c \<longrightarrow> isdecimal c"
      using px underscore_no_digit by (auto simp: isdecimal_def)
    ultimately show ?thesis by blast
  next
    case False
    from xy False dec
    have "count_up s = Inr (x @ format_prec (length y) (decimal_value y + 1))"
      by (rule count_up_digits)
    moreover have "\<forall>c\<in>set (x @ format_prec (length y) (decimal_value y + 1)). isdigit c \<longrightarrow> isdecimal c"
      using px format_prec_digits by auto
    ultimately show ?thesis by blast
  qed
qed

text \<open>\<^verbatim>\<open>", ".join\<close> in terms of the list functions of the library.\<close>

lemma str_join_eq:
  "xs \<noteq> [] \<Longrightarrow> str_join sep xs = concat (map (\<lambda>x. x @ sep) (butlast xs)) @ last xs"
  by (induction sep xs rule: str_join.induct) simp_all

lemma str_join_map:
  "xs \<noteq> [] \<Longrightarrow>
   str_join sep (map g xs) = concat (map (\<lambda>x. g x @ sep) (butlast xs)) @ g (last xs)"
  by (simp add: str_join_eq map_butlast [symmetric] last_map comp_def)

text \<open>The text of a call and of a header, character by character.\<close>

lemma call_line_text:
  "call_line funcname arguments =
     funcname @ ''('' @
     (if arguments = [] then []
      else concat (map (\<lambda>a. fst a @ '', '') (butlast arguments)) @ fst (last arguments))
     @ [CHR '')'', CHR '';'', CHR 0x0A]"
  by (simp add: call_line_def str_join_map)

lemma def_header_text:
  "def_header funcname arguments =
     ''void '' @ funcname @ ''('' @
     (if arguments = [] then ''void''
      else concat (map (\<lambda>a. snd a @ '' '' @ fst a @ '', '') (butlast arguments))
           @ snd (last arguments) @ '' '' @ fst (last arguments))
     @ [CHR '')'', CHR ''{'', CHR 0x0A]"
  by (simp add: def_header_def str_join_map)

lemma chunk_loop_last:
  "0 < chunk_size \<Longrightarrow> length lines < nat chunk_size \<Longrightarrow>
   chunk_loop lines mainfile deffile funcname chunk_size arguments =
     Some (Inr (mainfile @ call_line funcname arguments,
                (deffile @ def_header funcname arguments) @ concat lines @ def_footer))"
  by (subst chunk_loop.simps) (simp add: Let_def)

lemma chunk_loop_step:
  "0 < chunk_size \<Longrightarrow> nat chunk_size \<le> length lines \<Longrightarrow> count_up funcname = Inr funcname' \<Longrightarrow>
   chunk_loop lines mainfile deffile funcname chunk_size arguments =
     chunk_loop (drop (nat chunk_size) lines) (mainfile @ call_line funcname arguments)
       ((deffile @ def_header funcname arguments) @ concat (take (nat chunk_size) lines) @ def_footer)
       funcname' chunk_size arguments"
  by (subst chunk_loop.simps) (simp add: Let_def)

lemma chunk_loop_raise:
  "0 < chunk_size \<Longrightarrow> nat chunk_size \<le> length lines \<Longrightarrow> count_up funcname = Inl e \<Longrightarrow>
   chunk_loop lines mainfile deffile funcname chunk_size arguments = Some (Inl e)"
  by (subst chunk_loop.simps) (simp add: Let_def)

lemma write_in_chunks_inline:
  "length lines < nat (chunk_size + 1) \<Longrightarrow>
   write_in_chunks lines mainfile deffile name chunk_size arguments =
     Some (Inr (mainfile @ concat lines, deffile))"
  by (simp add: write_in_chunks_def)

lemma write_in_chunks_three:
  assumes "length lines = 250" and "count_up (''definitions_'' @ name) = Inr f1"
    and "count_up f1 = Inr f2"
  shows "write_in_chunks lines mainfile deffile name 100 arguments =
     Some (Inr (mainfile @ call_line (''definitions_'' @ name) arguments
                    @ call_line f1 arguments @ call_line f2 arguments,
           deffile @ def_header (''definitions_'' @ name) arguments
                     @ concat (take 100 lines) @ def_footer
                   @ def_header f1 arguments
                     @ concat (take 100 (drop 100 lines)) @ def_footer
                   @ def_header f2 arguments
                     @ concat (drop 200 lines) @ def_footer))"
proof -
  let ?f0 = "''definitions_'' @ name"
  have "write_in_chunks lines mainfile deffile name 100 arguments =
          chunk_loop lines mainfile deffile ?f0 100 arguments"
    using assms(1) by (simp add: write_in_chunks_def)
  also have "\<dots> = chunk_loop (drop 100 lines) (mainfile @ call_line ?f0 arguments)
       ((deffile @ def_header ?f0 arguments) @ concat (take 100 lines) @ def_footer)
       f1 100 arguments"
    using assms(1,2) chunk_loop_step [of 100 lines ?f0 f1 mainfile deffile arguments] by simp
  also have "\<dots> = chunk_loop (drop 100 (drop 100 lines))
       ((mainfile @ call_line ?f0 arguments) @ call_line f1 arguments)
       ((((deffile @ def_header ?f0 arguments) @ concat (take 100 lines) @ def_footer)
          @ def_header f1 arguments) @ concat (take 100 (drop 100 lines)) @ def_footer)
       f2 100 arguments"
    using assms(1,3) chunk_loop_step [of 100 "drop 100 lines" f1 f2] by simp
  also have "\<dots> = Some (Inr (((mainfile @ call_line ?f0 arguments) @ call_line f1 arguments)
            @ call_line f2 arguments,
       (((((deffile @ def_header ?f0 arguments) @ concat (take 100 lines) @ def_footer)
          @ def_header f1 arguments) @ concat (take 100 (drop 100 lines)) @ def_footer)
          @ def_header f2 arguments)
          @ concat (drop 100 (drop 100 lines)) @ def_footer))"
    using assms(1) chunk_loop_last [of 100 "drop 100 (drop 100 lines)"] by simp
  finally show ?thesis by simp
qed

lemma definitions_name_plain:
  "\<forall>c\<in>set name. isdigit c \<longrightarrow> isdecimal c \<Longrightarrow>
   \<forall>c\<in>set (''definitions_'' @ name). isdigit c \<longrightarrow> isdecimal c"
proof -
  assume plain: "\<forall>c\<in>set name. isdigit c \<longrightarrow> isdecimal c"
  have "\<forall>c\<in>set ''definitions_''. \<not> isdigit c"
    by (simp add: isdigit_def isdecimal_def)
  with plain show ?thesis
    by (simp only: set_append ball_Un) blast
qed

lemma definitions_name_numbered:
  assumes "name = [] \<or> \<not> isdigit (last name)"
  shows "count_up (''definitions_'' @ name) = Inr (''definitions_'' @ name @ ''_1'')"
    and "count_up (''definitions_'' @ name @ ''_1'') = Inr (''definitions_'' @ name @ ''_2'')"
proof -
  have "\<not> isdigit (last (''definitions_'' @ name))"
    using assms underscore_no_digit by (cases "name = []") simp_all
  then have "rsplit_int (''definitions_'' @ name) = (''definitions_'' @ name, [])"
    by (intro rsplit_int_no_digit) simp
  then show "count_up (''definitions_'' @ name) = Inr (''definitions_'' @ name @ ''_1'')"
    using count_up_plain [of "''definitions_'' @ name" "''definitions_'' @ name"] by simp
  have d: "decimal (Suc 0) = ''1''" "decimal (Suc (Suc 0)) = ''2''"
    by (simp_all add: decimal.simps digit_char_def)
  from count_up_numbered [of "''definitions_'' @ name" 0]
  show "count_up (''definitions_'' @ name @ ''_1'') = Inr (''definitions_'' @ name @ ''_2'')"
    by (simp add: d)
qed

text \<open>
  Claim C5. The sub-routine name starts as \<open>definitions_<name>\<close> and is counted up after
  each full chunk; for a name without superscript digits (every ASCII name) counting up
  does not raise, the three names are pairwise different, and if \<open>name\<close> does not end in a
  digit they are \<open>definitions_<name>\<close>, \<open>definitions_<name>_1\<close> and
  \<open>definitions_<name>_2\<close>. A producer of 250 lines with \<open>chunk_size = 100\<close>: the
  definitions sink receives exactly three sub-routine definitions, each the header
  \<open>void <sub-routine>(<typed arguments>){\<close>, its lines and the footer \<open>}\<close>, holding the
  first 100 lines, the next 100 and the last 50; the main sink receives the three calls
  \<open><sub-routine>(<arguments>);\<close>, one per definition. A producer of 50 lines with
  \<open>chunk_size = 100\<close>: all lines go to the main sink, and the definitions sink is left as
  it was.
\<close>

theorem write_in_chunks_250_and_50:
  "((\<forall>c\<in>set name. isdigit c \<longrightarrow> isdecimal c) \<longrightarrow>
      (\<exists>f1 f2.
         count_up (''definitions_'' @ name) = Inr f1 \<and> count_up f1 = Inr f2 \<and>
         distinct [''definitions_'' @ name, f1, f2] \<and>
         ((name = [] \<or> \<not> isdigit (last name)) \<longrightarrow>
            f1 = ''definitions_'' @ name @ ''_1'' \<and> f2 = ''definitions_'' @ name @ ''_2'') \<and>
         (length lines = 250 \<longrightarrow>
            write_in_chunks lines mainfile deffile name 100 arguments =
              Some (Inr
                (mainfile
                   @ ''definitions_'' @ name @ ''(''
                     @ (if arguments = [] then []
                        else concat (map (\<lambda>a. fst a @ '', '') (butlast arguments))
                             @ fst (last arguments))
                     @ [CHR '')'', CHR '';'', CHR 0x0A]
                   @ f1 @ ''(''
                     @ (if arguments = [] then []
                        else concat (map (\<lambda>a. fst a @ '', '') (butlast arguments))
                             @ fst (last arguments))
                     @ [CHR '')'', CHR '';'', CHR 0x0A]
                   @ f2 @ ''(''
                     @ (if arguments = [] then []
                        else concat (map (\<lambda>a. fst a @ '', '') (butlast arguments))
                             @ fst (last arguments))
                     @ [CHR '')'', CHR '';'', CHR 0x0A],
                 deffile
                   @ ''void definitions_'' @ name @ ''(''
                     @ (if arguments = [] then ''void''
                        else concat (map (\<lambda>a. snd a @ '' '' @ fst a @ '', '') (butlast arguments))
                             @ snd (last arguments) @ '' '' @ fst (last arguments))
                     @ [CHR '')'', CHR ''{'', CHR 0x0A]
                     @ concat (take 100 lines) @ [CHR ''}'', CHR 0x0A]
                   @ ''void '' @ f1 @ ''(''
                     @ (if arguments = [] then ''void''
                        else concat (map (\<lambda>a. snd a @ '' '' @ fst a @ '', '') (butlast arguments))
                             @ snd (last arguments) @ '' '' @ fst (last arguments))
                     @ [CHR '')'', CHR ''{'', CHR 0x0A]
                     @ concat (take 100 (drop 100 lines)) @ [CHR ''}'', CHR 0x0A]
                   @ ''void '' @ f2 @ ''(''
                     @ (if arguments = [] then ''void''
                        else concat (map (\<lambda>a. snd a @ '' '' @ fst a @ '', '') (butlast arguments))
                             @ snd (last arguments) @ '' '' @ fst (last arguments))
                     @ [CHR '')'', CHR ''{'', CHR 0x0A]
                     @ concat (drop 200 lines) @ [CHR ''}'', CHR 0x0A])) \<and>
            length (take 100 lines) = 100 \<and> length (take 100 (drop 100 lines)) = 100 \<and>
            length (drop 200 lines) = 50 \<and>
            lines = take 100 lines @ take 100 (drop 100 lines) @ drop 200 lines))) \<and>
   (length lines = 50 \<longrightarrow>
      write_in_chunks lines mainfile deffile name 100 arguments =
        Some (Inr (mainfile @ concat lines, deffile)))"
proof (intro conjI impI)
  assume plain: "\<forall>c\<in>set name. isdigit c \<longrightarrow> isdecimal c"
  let ?f0 = "''definitions_'' @ name"
  from count_up_no_superscript [OF definitions_name_plain [OF plain]] obtain f1 where
    f1: "count_up ?f0 = Inr f1" "\<forall>c\<in>set f1. isdigit c \<longrightarrow> isdecimal c" by blast
  from count_up_no_superscript [OF f1(2)] obtain f2 where f2: "count_up f1 = Inr f2" by blast
  have dist: "distinct [?f0, f1, f2]"
    using count_up_neq [OF f1(1)] count_up_neq [OF f2] count_up_twice_neq [OF f1(1) f2]
    by (simp add: eq_commute)
  have numbered: "(name = [] \<or> \<not> isdigit (last name)) \<longrightarrow>
      f1 = ''definitions_'' @ name @ ''_1'' \<and> f2 = ''definitions_'' @ name @ ''_2''"
  proof
    assume n: "name = [] \<or> \<not> isdigit (last name)"
    from definitions_name_numbered(1) [OF n] f1(1)
    have a: "f1 = ''definitions_'' @ name @ ''_1''" by simp
    with definitions_name_numbered(2) [OF n] f2
    have "f2 = ''definitions_'' @ name @ ''_2''" by simp
    with a show "f1 = ''definitions_'' @ name @ ''_1'' \<and> f2 = ''definitions_'' @ name @ ''_2''"
      by simp
  qed
  have written: "length lines = 250 \<longrightarrow>
            write_in_chunks lines mainfile deffile name 100 arguments =
              Some (Inr
                (mainfile
                   @ ''definitions_'' @ name @ ''(''
                     @ (if arguments = [] then []
                        else concat (map (\<lambda>a. fst a @ '', '') (butlast arguments))
                             @ fst (last arguments))
                     @ [CHR '')'', CHR '';'', CHR 0x0A]
                   @ f1 @ ''(''
                     @ (if arguments = [] then []
                        else concat (map (\<lambda>a. fst a @ '', '') (butlast arguments))
                             @ fst (last arguments))
                     @ [CHR '')'', CHR '';'', CHR 0x0A]
                   @ f2 @ ''(''
                     @ (if arguments = [] then []
                        else concat (map (\<lambda>a. fst a @ '', '') (butlast arguments))
                             @ fst (last arguments))
                     @ [CHR '')'', CHR '';'', CHR 0x0A],
                 deffile
                   @ ''void definitions_'' @ name @ ''(''
                     @ (if arguments = [] then ''void''
                        else concat (map (\<lambda>a. snd a @ '' '' @ fst a @ '', '') (butlast arguments))
                             @ snd (last arguments) @ '' '' @ fst (last arguments))
                     @ [CHR '')'', CHR ''{'', CHR 0x0A]
                     @ concat (take 100 lines) @ [CHR ''}'', CHR 0x0A]
                   @ ''void '' @ f1 @ ''(''
                     @ (if arguments = [] then ''void''
                        else concat (map (\<lambda>a. snd a @ '' '' @ fst a @ '', '') (butlast arguments))
                             @ snd (last arguments) @ '' '' @ fst (last arguments))
                     @ [CHR '')'', CHR ''{'', CHR 0x0A]
                     @ concat (take 100 (drop 100 lines)) @ [CHR ''}'', CHR 0x0A]
                   @ ''void '' @ f2 @ ''(''
                     @ (if arguments = [] then ''void''
                        else concat (map (\<lambda>a. snd a @ '' '' @ fst a @ '', '') (butlast arguments))
                             @ snd (last arguments) @ '' '' @ fst (last arguments))
                     @ [CHR '')'', CHR ''{'', CHR 0x0A]
                     @ concat (drop 200 lines) @ [CHR ''}'', CHR 0x0A])) \<and>
            length (take 100 lines) = 100 \<and> length (take 100 (drop 100 lines)) = 100 \<and>
            length (drop 200 lines) = 50 \<and>
            lines = take 100 lines @ take 100 (drop 100 lines) @ drop 200 lines"
  proof
    assume len: "length lines = 250"
    have "take 100 (drop 100 lines) @ drop 200 lines = drop 100 lines"
      using append_take_drop_id [of 100 "drop 100 lines"] by simp
    then have split: "lines = take 100 lines @ take 100 (drop 100 lines) @ drop 200 lines"
      by simp
    from len split write_in_chunks_three [OF len f1(1) f2, of mainfile deffile arguments]
    show "write_in_chunks lines mainfile deffile name 100 arguments =
              Some (Inr
                (mainfile
                   @ ''definitions_'' @ name @ ''(''
                     @ (if arguments = [] then []
                        else concat (map (\<lambda>a. fst a @ '', '') (butlast arguments))
                             @ fst (last arguments))
                     @ [CHR '')'', CHR '';'', CHR 0x0A]
                   @ f1 @ ''(''
                     @ (if arguments = [] then []
                        else concat (map (\<lambda>a. fst a @ '', '') (butlast arguments))
                             @ fst (last arguments))
                     @ [CHR '')'', CHR '';'', CHR 0x0A]
                   @ f2 @ ''(''
                     @ (if arguments = [] then []
                        else concat (map (\<lambda>a. fst a @ '', '') (butlast arguments))
                             @ fst (last arguments))
                     @ [CHR '')'', CHR '';'', CHR 0x0A],
                 deffile
                   @ ''void definitions_'' @ name @ ''(''
                     @ (if arguments = [] then ''void''
                        else concat (map (\<lambda>a. snd a @ '' '' @ fst a @ '', '') (butlast arguments))
                             @ snd (last arguments) @ '' '' @ fst (last arguments))
                     @ [CHR '')'', CHR ''{'', CHR 0x0A]
                     @ concat (take 100 lines) @ [CHR ''}'', CHR 0x0A]
                   @ ''void '' @ f1 @ ''(''
                     @ (if arguments = [] then ''void''
                        else concat (map (\<lambda>a. snd a @ '' '' @ fst a @ '', '') (butlast arguments))
                             @ snd (last arguments) @ '' '' @ fst (last arguments))
                     @ [CHR '')'', CHR ''{'', CHR 0x0A]
                     @ concat (take 100 (drop 100 lines)) @ [CHR ''}'', CHR 0x0A]
                   @ ''void '' @ f2 @ ''(''
                     @ (if arguments = [] then ''void''
                        else concat (map (\<lambda>a. snd a @ '' '' @ fst a @ '', '') (butlast arguments))
                             @ snd (last arguments) @ '' '' @ fst (last arguments))
                     @ [CHR '')'', CHR ''{'', CHR 0x0A]
                     @ concat (drop 200 lines) @ [CHR ''}'', CHR 0x0A])) \<and>
            length (take 100 lines) = 100 \<and> length (take 100 (drop 100 lines)) = 100 \<and>
            length (drop 200 lines) = 50 \<and>
            lines = take 100 lines @ take 100 (drop 100 lines) @ drop 200 lines"
      by (simp add: call_line_text def_header_text def_footer_def)
  qed
  from f1(1) f2 dist numbered written
  show "\<exists>f1 f2.
         count_up (''definitions_'' @ name) = Inr f1 \<and> count_up f1 = Inr f2 \<and>
         distinct [''definitions_'' @ name, f1, f2] \<and>
         ((name = [] \<or> \<not> isdigit (last name)) \<longrightarrow>
            f1 = ''definitions_'' @ name @ ''_1'' \<and> f2 = ''definitions_'' @ name @ ''_2'') \<and>
         (length lines = 250 \<longrightarrow>
            write_in_chunks lines mainfile deffile name 100 arguments =
              Some (Inr
                (mainfile
                   @ ''definitions_'' @ name @ ''(''
                     @ (if arguments = [] then []
                        else concat (map (\<lambda>a. fst a @ '', '') (butlast arguments))
                             @ fst (last arguments))
                     @ [CHR '')'', CHR '';'', CHR 0x0A]
                   @ f1 @ ''(''
                     @ (if arguments = [] then []
                        else concat (map (\<lambda>a. fst a @ '', '') (butlast arguments))
                             @ fst (last arguments))
                     @ [CHR '')'', CHR '';'', CHR 0x0A]
                   @ f2 @ ''(''
                     @ (if arguments = [] then []
                        else concat (map (\<lambda>a. fst a @ '', '') (butlast arguments))
                             @ fst (last arguments))
                     @ [CHR '')'', CHR '';'', CHR 0x0A],
                 deffile
                   @ ''void definitions_'' @ name @ ''(''
                     @ (if arguments = [] then ''void''
                        else concat (map (\<lambda>a. snd a @ '' '' @ fst a @ '', '') (butlast arguments))
                             @ snd (last arguments) @ '' '' @ fst (last arguments))
                     @ [CHR '')'', CHR ''{'', CHR 0x0A]
                     @ concat (take 100 lines) @ [CHR ''}'', CHR 0x0A]
                   @ ''void '' @ f1 @ ''(''
                     @ (if arguments = [] then ''void''
                        else concat (map (\<lambda>a. snd a @ '' '' @ fst a @ '', '') (butlast arguments))
                             @ snd (last arguments) @ '' '' @ fst (last arguments))
                     @ [CHR '')'', CHR ''{'', CHR 0x0A]
                     @ concat (take 100 (drop 100 lines)) @ [CHR ''}'', CHR 0x0A]
                   @ ''void '' @ f2 @ ''(''
                     @ (if arguments = [] then ''void''
                        else concat (map (\<lambda>a. snd a @ '' '' @ fst a @ '', '') (butlast arguments))
                             @ snd (last arguments) @ '' '' @ fst (last arguments))
                     @ [CHR '')'', CHR ''{'', CHR 0x0A]
                     @ concat (drop 200 lines) @ [CHR ''}'', CHR 0x0A])) \<and>
            length (take 100 lines) = 100 \<and> length (take 100 (drop 100 lines)) = 100 \<and>
            length (drop 200 lines) = 50 \<and>
            lines = take 100 lines @ take 100 (drop 100 lines) @ drop 200 lines)"
    by blast
next
  assume "length lines = 50"
  then show "write_in_chunks lines mainfile deffile name 100 arguments =
        Some (Inr (mainfile @ concat lines, deffile))"
    by (intro write_in_chunks_inline) simp
qed

theorem write_in_chunks_250_and_50_witness:
  "write_in_chunks (replicate 250 [CHR ''x'', CHR '';'', CHR 0x0A]) [] [] ''f'' 100
       [(''dY'', ''PyArrayObject*''), (''Y'', ''PyArrayObject*'')] =
     Some (Inr
       (''definitions_f(dY, Y);'' @ [CHR 0x0A] @
        ''definitions_f_1(dY, Y);'' @ [CHR 0x0A] @
        ''definitions_f_2(dY, Y);'' @ [CHR 0x0A],
        ''void definitions_f(PyArrayObject* dY, PyArrayObject* Y){'' @ [CHR 0x0A]
          @ concat (replicate 100 [CHR ''x'', CHR '';'', CHR 0x0A]) @ ''}'' @ [CHR 0x0A] @
        ''void definitions_f_1(PyArrayObject* dY, PyArrayObject* Y){'' @ [CHR 0x0A]
          @ concat (replicate 100 [CHR ''x'', CHR '';'', CHR 0x0A]) @ ''}'' @ [CHR 0x0A] @
        ''void definitions_f_2(PyArrayObject* dY, PyArrayObject* Y){'' @ [CHR 0x0A]
          @ concat (replicate 50 [CHR ''x'', CHR '';'', CHR 0x0A]) @ ''}'' @ [CHR 0x0A])) \<and>
   write_in_chunks (replicate 50 [CHR ''x'', CHR '';'', CHR 0x0A]) [] [] ''f'' 100
       [(''dY'', ''PyArrayObject*''), (''Y'', ''PyArrayObject*'')] =
     Some (Inr (concat (replicate 50 [CHR ''x'', CHR '';'', CHR 0x0A]), []))"
proof -
  let ?line = "[CHR ''x'', CHR '';'', CHR 0x0A]"
  let ?args = "[(''dY'', ''PyArrayObject*''), (''Y'', ''PyArrayObject*'')]"
  have plain: "\<forall>c\<in>set ''f''. isdigit c \<longrightarrow> isdecimal c"
    by (simp add: isdigit_def isdecimal_def)
  have nodigit: "''f'' = [] \<or> \<not> isdigit (last ''f'')"
    by (simp add: isdigit_def isdecimal_def)
  have l: "length (replicate 250 ?line) = 250" "length (replicate 50 ?line) = 50"
    by simp_all
  from write_in_chunks_250_and_50 [of "''f''" "replicate 250 ?line" "[]" "[]" ?args]
    plain nodigit l(1)
  obtain f1 f2 where names: "f1 = ''definitions_'' @ ''f'' @ ''_1''" "f2 = ''definitions_'' @ ''f'' @ ''_2''"
    and w: "write_in_chunks (replicate 250 ?line) [] [] ''f'' 100 ?args =
              Some (Inr
                ([]
                   @ ''definitions_'' @ ''f'' @ ''(''
                     @ (if ?args = [] then []
                        else concat (map (\<lambda>a. fst a @ '', '') (butlast ?args))
                             @ fst (last ?args))
                     @ [CHR '')'', CHR '';'', CHR 0x0A]
                   @ f1 @ ''(''
                     @ (if ?args = [] then []
                        else concat (map (\<lambda>a. fst a @ '', '') (butlast ?args))
                             @ fst (last ?args))
                     @ [CHR '')'', CHR '';'', CHR 0x0A]
                   @ f2 @ ''(''
                     @ (if ?args = [] then []
                        else concat (map (\<lambda>a. fst a @ '', '') (butlast ?args))
                             @ fst (last ?args))
                     @ [CHR '')'', CHR '';'', CHR 0x0A],
                 []
                   @ ''void definitions_'' @ ''f'' @ ''(''
                     @ (if ?args = [] then ''void''
                        else concat (map (\<lambda>a. snd a @ '' '' @ fst a @ '', '') (butlast ?args))
                             @ snd (last ?args) @ '' '' @ fst (last ?args))
                     @ [CHR '')'', CHR ''{'', CHR 0x0A]
                     @ concat (take 100 (replicate 250 ?line)) @ [CHR ''}'', CHR 0x0A]
                   @ ''void '' @ f1 @ ''(''
                     @ (if ?args = [] then ''void''
                        else concat (map (\<lambda>a. snd a @ '' '' @ fst a @ '', '') (butlast ?args))
                             @ snd (last ?args) @ '' '' @ fst (last ?args))
                     @ [CHR '')'', CHR ''{'', CHR 0x0A]
                     @ concat (take 100 (drop 100 (replicate 250 ?line))) @ [CHR ''}'', CHR 0x0A]
                   @ ''void '' @ f2 @ ''(''
                     @ (if ?args = [] then ''void''
                        else concat (map (\<lambda>a. snd a @ '' '' @ fst a @ '', '') (butlast ?args))
                             @ snd (last ?args) @ '' '' @ fst (last ?args))
                     @ [CHR '')'', CHR ''{'', CHR 0x0A]
                     @ concat (drop 200 (replicate 250 ?line)) @ [CHR ''}'', CHR 0x0A]))"
    by blast
  have a: "write_in_chunks (replicate 250 ?line) [] [] ''f'' 100 ?args =
     Some (Inr
       (''definitions_f(dY, Y);'' @ [CHR 0x0A] @
        ''definitions_f_1(dY, Y);'' @ [CHR 0x0A] @
        ''definitions_f_2(dY, Y);'' @ [CHR 0x0A],
        ''void definitions_f(PyArrayObject* dY, PyArrayObject* Y){'' @ [CHR 0x0A]
          @ concat (replicate 100 ?line) @ ''}'' @ [CHR 0x0A] @
        ''void definitions_f_1(PyArrayObject* dY, PyArrayObject* Y){'' @ [CHR 0x0A]
          @ concat (replicate 100 ?line) @ ''}'' @ [CHR 0x0A] @
        ''void definitions_f_2(PyArrayObject* dY, PyArrayObject* Y){'' @ [CHR 0x0A]
          @ concat (replicate 50 ?line) @ ''}'' @ [CHR 0x0A]))"
    unfolding w names by simp
  from write_in_chunks_250_and_50 [of "''f''" "replicate 50 ?line" "[]" "[]" ?args] l(2)
  have "write_in_chunks (replicate 50 ?line) [] [] ''f'' 100 ?args =
        Some (Inr ([] @ concat (replicate 50 ?line), []))"
    by blast
  then have b: "write_in_chunks (replicate 50 ?line) [] [] ''f'' 100 ?args =
     Some (Inr (concat (replicate 50 ?line), []))"
    by (simp only: append.simps)
  from a b show ?thesis by (rule conjI)
qed

subsection \<open>The helper sorter\<close>

lemma depends_on_any_iff:
  "depends_on_any helper others \<longleftrightarrow> (\<exists>other\<in>set others. has (snd helper) (fst other))"
  by (induction others) auto

lemma first_independent_Some:
  "first_independent helpers j rest = Some k \<Longrightarrow> \<not> depends_on_any (rest ! (k - j)) helpers"
proof (induction rest arbitrary: j)
  case Nil
  then show ?case by simp
next
  case (Cons helper rest)
  show ?case
  proof (cases "depends_on_any helper helpers")
    case False
    with Cons.prems show ?thesis by simp
  next
    case True
    with Cons.prems have r: "first_independent helpers (Suc j) rest = Some k" by simp
    from first_independent_bound [OF r] have "Suc j \<le> k" by simp
    then have "k - j = Suc (k - Suc j)" by simp
    with Cons.IH [OF r] show ?thesis by simp
  qed
qed

lemma first_independent_None:
  "first_independent helpers j rest = None \<Longrightarrow> \<forall>helper\<in>set rest. depends_on_any helper helpers"
  by (induction rest arbitrary: j) (auto split: if_splits)

lemma depends_rel_mono: "set hs' \<subseteq> set hs \<Longrightarrow> depends_rel hs' \<subseteq> depends_rel hs"
  by (auto simp: depends_rel_def)

lemma finite_depends_rel: "finite (depends_rel hs)"
proof -
  have "depends_rel hs \<subseteq> set hs \<times> set hs"
    by (auto simp: depends_rel_def)
  then show ?thesis by (rule finite_subset) simp
qed

text \<open>A non-empty list with an acyclic dependency relation has a helper that depends
  on no helper of the list.\<close>

lemma acyclic_has_independent:
  assumes "acyclic (depends_rel hs)" and "hs \<noteq> []"
  shows "\<exists>h\<in>set hs. \<not> depends_on_any h hs"
proof -
  have "wf ((depends_rel hs)\<inverse>)"
    using assms(1) finite_depends_rel [of hs]
    by (intro finite_acyclic_wf) (simp_all add: acyclic_converse)
  moreover from assms(2) have "hd hs \<in> set hs" by simp
  ultimately obtain z where z: "z \<in> set hs"
    and least: "\<And>y. (y, z) \<in> (depends_rel hs)\<inverse> \<Longrightarrow> y \<notin> set hs"
    by (rule wfE_min) blast
  have "\<not> depends_on_any z hs"
  proof
    assume "depends_on_any z hs"
    then obtain other where o: "other \<in> set hs" "has (snd z) (fst other)"
      by (auto simp: depends_on_any_iff)
    with z have "(other, z) \<in> (depends_rel hs)\<inverse>"
      by (simp add: depends_rel_def)
    from least [OF this] o(1) show False by simp
  qed
  with z show ?thesis by blast
qed

lemma set_pop: "set (take j hs @ drop (Suc j) hs) \<subseteq> set hs"
  by (auto dest: in_set_takeD in_set_dropD)

lemma mset_pop:
  "j < length hs \<Longrightarrow> mset (hs ! j # take j hs @ drop (Suc j) hs) = mset hs"
proof -
  assume "j < length hs"
  then have "hs = take j hs @ hs ! j # drop (Suc j) hs"
    by (simp add: id_take_nth_drop [symmetric])
  then have "mset hs = mset (take j hs @ hs ! j # drop (Suc j) hs)" by simp
  then show ?thesis by simp
qed

lemma sort_helpers_sorted:
  "acyclic (depends_rel helpers) \<Longrightarrow>
   \<exists>sorted. sort_helpers helpers = Inr sorted \<and> mset sorted = mset helpers \<and>
     sorted_wrt (\<lambda>a b. \<not> has (snd a) (fst b)) sorted"
proof (induction helpers rule: sort_helpers.induct)
  case (1 helpers)
  show ?case
  proof (cases "1 < length helpers")
    case False
    then have "sorted_wrt (\<lambda>a b. \<not> has (snd a) (fst b)) helpers"
      by (cases helpers) auto
    with False show ?thesis
      by (simp add: sort_helpers.simps [of helpers])
  next
    case True
    then have "helpers \<noteq> []" by auto
    from acyclic_has_independent [OF "1.prems" this]
    have "first_independent helpers 0 helpers \<noteq> None"
      using first_independent_None [of helpers 0 helpers] by blast
    then obtain j where j: "first_independent helpers 0 helpers = Some j" by blast
    from first_independent_bound [OF j] have jlt: "j < length helpers" by simp
    from first_independent_Some [OF j] have free: "\<not> depends_on_any (helpers ! j) helpers"
      by simp
    let ?rest = "take j helpers @ drop (Suc j) helpers"
    have "acyclic (depends_rel ?rest)"
      using "1.prems" depends_rel_mono [OF set_pop] by (rule acyclic_subset)
    from "1.IH" [OF True j this] obtain sorted_tail where
      st: "sort_helpers ?rest = Inr sorted_tail" "mset sorted_tail = mset ?rest"
        "sorted_wrt (\<lambda>a b. \<not> has (snd a) (fst b)) sorted_tail"
      by blast
    have res: "sort_helpers helpers = Inr (helpers ! j # sorted_tail)"
      using True j st(1) by (simp add: sort_helpers.simps [of helpers])
    have m: "mset (helpers ! j # sorted_tail) = mset helpers"
      using st(2) mset_pop [OF jlt] by simp
    have "set sorted_tail = set ?rest"
      using st(2) by (rule mset_eq_setD)
    with set_pop [of j helpers] have "set sorted_tail \<subseteq> set helpers" by simp
    with free have "\<forall>b\<in>set sorted_tail. \<not> has (snd (helpers ! j)) (fst b)"
      by (auto simp: depends_on_any_iff)
    with st(3) have "sorted_wrt (\<lambda>a b. \<not> has (snd a) (fst b)) (helpers ! j # sorted_tail)"
      by simp
    with res m show ?thesis by blast
  qed
qed

text \<open>
  Claim C3. If the dependency relation of the helper list is acyclic, \<open>_sort_helpers\<close>
  returns (it does not raise), the list it returns is a permutation of its argument, and
  no helper of the result contains the symbol of a helper at a greater index.
\<close>

theorem sort_helpers_acyclic:
  assumes "acyclic (depends_rel helpers)"
  shows "\<exists>sorted. sort_helpers helpers = Inr sorted \<and> mset sorted = mset helpers \<and>
           (\<forall>i j. i < j \<and> j < length sorted \<longrightarrow> \<not> has (snd (sorted ! i)) (fst (sorted ! j)))"
proof -
  from sort_helpers_sorted [OF assms] obtain sorted where
    s: "sort_helpers helpers = Inr sorted" "mset sorted = mset helpers"
      "sorted_wrt (\<lambda>a b. \<not> has (snd a) (fst b)) sorted"
    by blast
  from s(3) have "\<forall>i j. i < j \<and> j < length sorted \<longrightarrow> \<not> has (snd (sorted ! i)) (fst (sorted ! j))"
    by (simp add: sorted_wrt_iff_nth_less)
  with s(1,2) show ?thesis by blast
qed

theorem sort_helpers_acyclic_witness:
  "acyclic (depends_rel
      [(Symbol ''c'', Add (Atom (Symbol ''a'')) (Atom (Symbol ''b''))),
       (Symbol ''b'', Mul (Atom (Symbol ''a'')) (Num 2)),
       (Symbol ''a'', Atom (Y 0))]) \<and>
   sort_helpers
      [(Symbol ''c'', Add (Atom (Symbol ''a'')) (Atom (Symbol ''b''))),
       (Symbol ''b'', Mul (Atom (Symbol ''a'')) (Num 2)),
       (Symbol ''a'', Atom (Y 0))]
     = Inr [(Symbol ''a'', Atom (Y 0)),
            (Symbol ''b'', Mul (Atom (Symbol ''a'')) (Num 2)),
            (Symbol ''c'', Add (Atom (Symbol ''a'')) (Atom (Symbol ''b'')))] \<and>
   (\<exists>sorted. sort_helpers
      [(Symbol ''c'', Add (Atom (Symbol ''a'')) (Atom (Symbol ''b''))),
       (Symbol ''b'', Mul (Atom (Symbol ''a'')) (Num 2)),
       (Symbol ''a'', Atom (Y 0))] = Inr sorted \<and>
      mset sorted = mset
      [(Symbol ''c'', Add (Atom (Symbol ''a'')) (Atom (Symbol ''b''))),
       (Symbol ''b'', Mul (Atom (Symbol ''a'')) (Num 2)),
       (Symbol ''a'', Atom (Y 0))] \<and>
      (\<forall>i j. i < j \<and> j < length sorted \<longrightarrow> \<not> has (snd (sorted ! i)) (fst (sorted ! j))))"
proof -
  let ?hs = "[(Symbol ''c'', Add (Atom (Symbol ''a'')) (Atom (Symbol ''b''))),
       (Symbol ''b'', Mul (Atom (Symbol ''a'')) (Num 2)),
       (Symbol ''a'', Atom (Y 0))]"
  define rank :: "helper \<Rightarrow> nat" where
    "rank h = (if fst h = Symbol ''a'' then 0 else if fst h = Symbol ''b'' then 1 else 2)" for h
  have "acyclic (depends_rel ?hs)"
  proof (rule acyclicI_order [where f = rank])
    fix a b assume "(a, b) \<in> depends_rel ?hs"
    then show "rank b < rank a"
      by (auto simp: depends_rel_def rank_def)
  qed
  moreover have "sort_helpers ?hs = Inr [(Symbol ''a'', Atom (Y 0)),
            (Symbol ''b'', Mul (Atom (Symbol ''a'')) (Num 2)),
            (Symbol ''c'', Add (Atom (Symbol ''a'')) (Atom (Symbol ''b'')))]"
    by code_simp
  moreover note sort_helpers_acyclic [of ?hs]
  ultimately show ?thesis by blast
qed

text \<open>
  Where the sorter does reject: a set of at least two helpers of the list, each of which
  contains the symbol of a helper of the set (every dependency cycle through two or more
  helpers is such a set). None of them is ever found independent, so the search fails
  while at least two helpers are left.
\<close>

lemma in_set_pop:
  assumes "x \<in> set hs" and "x \<noteq> hs ! j"
  shows "x \<in> set (take j hs @ drop (Suc j) hs)"
proof -
  from assms(1) obtain i where i: "i < length hs" "hs ! i = x"
    by (auto simp: in_set_conv_nth)
  with assms(2) have "i \<noteq> j" by auto
  then consider "i < j" | "j < i" by linarith
  then show ?thesis
  proof cases
    case 1
    with i have "x \<in> set (take j hs)"
      by (auto simp: in_set_conv_nth intro!: exI [of _ i])
    then show ?thesis by simp
  next
    case 2
    then obtain k where k: "i = Suc j + k" by (auto simp: less_iff_Suc_add)
    with i have "drop (Suc j) hs ! k = x" "k < length (drop (Suc j) hs)" by simp_all
    then have "x \<in> set (drop (Suc j) hs)" by (auto simp: in_set_conv_nth)
    then show ?thesis by simp
  qed
qed

lemma sort_helpers_rejects_cycle:
  assumes "S \<subseteq> set helpers" and "a \<in> S" and "b \<in> S" and "a \<noteq> b"
    and "\<forall>x\<in>S. \<exists>y\<in>S. has (snd x) (fst y)"
  shows "sort_helpers helpers = Inl ValueError"
  using assms(1)
proof (induction helpers rule: sort_helpers.induct)
  case (1 helpers)
  from "1.prems" assms(2,3) have "a \<in> set helpers" "b \<in> set helpers" by auto
  with assms(4) have long: "1 < length helpers"
    by (cases helpers; cases "tl helpers") auto
  show ?case
  proof (cases "first_independent helpers 0 helpers")
    case None
    with long show ?thesis by (simp add: sort_helpers.simps [of helpers])
  next
    case (Some j)
    from first_independent_Some [OF Some]
    have free: "\<not> depends_on_any (helpers ! j) helpers" by simp
    have "helpers ! j \<notin> S"
    proof
      assume "helpers ! j \<in> S"
      with assms(5) obtain y where "y \<in> S" "has (snd (helpers ! j)) (fst y)" by blast
      with "1.prems" free show False by (auto simp: depends_on_any_iff)
    qed
    have "S \<subseteq> set (take j helpers @ drop (Suc j) helpers)"
    proof
      fix x assume x: "x \<in> S"
      with \<open>helpers ! j \<notin> S\<close> have "x \<noteq> helpers ! j" by auto
      moreover from x "1.prems" have "x \<in> set helpers" by auto
      ultimately show "x \<in> set (take j helpers @ drop (Suc j) helpers)"
        by (intro in_set_pop)
    qed
    from "1.IH" [OF long Some this] long Some show ?thesis
      by (simp add: sort_helpers.simps [of helpers])
  qed
qed

text \<open>
  Claim C4 says that every helper list with a cyclic dependency relation, a helper that
  contains its own symbol included, is rejected with \<open>ValueError\<close>. A list of one helper
  is returned as it is, whatever its expression contains: the search for an independent
  helper runs only under \<^verbatim>\<open>len(helpers) > 1\<close>. So a self-referential helper that is
  the only one, or the last one left, passes. Two evaluations: the helper \<open>h = h + 1\<close>
  alone, and the same helper after an independent one; a third shows that the same
  self-reference is rejected when another helper depends on it.
\<close>

theorem sort_helpers_self_reference:
  "sort_helpers [(Symbol ''h'', Add (Atom (Symbol ''h'')) (Num 1))]
     = Inr [(Symbol ''h'', Add (Atom (Symbol ''h'')) (Num 1))] \<and>
   \<not> acyclic (depends_rel [(Symbol ''h'', Add (Atom (Symbol ''h'')) (Num 1))]) \<and>
   sort_helpers [(Symbol ''h'', Add (Atom (Symbol ''h'')) (Num 1)), (Symbol ''a'', Num 1)]
     = Inr [(Symbol ''a'', Num 1), (Symbol ''h'', Add (Atom (Symbol ''h'')) (Num 1))] \<and>
   sort_helpers [(Symbol ''h'', Add (Atom (Symbol ''h'')) (Num 1)),
                 (Symbol ''g'', Atom (Symbol ''h''))]
     = Inl ValueError"
proof -
  let ?h = "(Symbol ''h'', Add (Atom (Symbol ''h'')) (Num 1))"
  have "(?h, ?h) \<in> depends_rel [?h]"
    by (simp add: depends_rel_def)
  then have "(?h, ?h) \<in> (depends_rel [?h])\<^sup>+" by (rule r_into_trancl)
  then have "\<not> acyclic (depends_rel [?h])"
    unfolding acyclic_def by blast
  moreover have "sort_helpers [?h] = Inr [?h]"
    by (simp add: sort_helpers.simps)
  moreover have "sort_helpers [?h, (Symbol ''a'', Num 1)] = Inr [(Symbol ''a'', Num 1), ?h]"
    by code_simp
  moreover have "sort_helpers [?h, (Symbol ''g'', Atom (Symbol ''h''))] = Inl ValueError"
    by code_simp
  ultimately show ?thesis by blast
qed

subsection \<open>The Jacobian synthesizer\<close>

lemma eval_sym_add [simp]: "eval env (sympy_add a b) = eval env a + eval env b"
  by (auto simp: sympy_add_def split: expr.splits)

lemma eval_sym_mul [simp]: "eval env (sympy_mul a b) = eval env a * eval env b"
  by (auto simp: sympy_mul_def split: expr.splits)

text \<open>
  Claim C2. With \<open>n = 2\<close> and no helpers, the row synthesized for \<open>y(0) * y(1)\<close> is
  \<open>[y(1), y(0)]\<close>. With the helper \<open>h = y(0) + y(1)\<close> and the entry \<open>h * h\<close>, the
  synthesized partial derivative by \<open>y(0)\<close> has the value \<open>2 * h\<close> under every
  assignment: the direct derivative of \<open>h * h\<close> by \<open>y(0)\<close> is 0, and the whole entry is
  the contribution \<open>d(h*h)/dh * dh/dy(0)\<close> through the helper. (The expression language
  does not collect like terms, so the entry is the expression \<open>h + h\<close>.) With
  simplification requested, each entry is the simplifier's image of these.
\<close>

theorem jac_from_f_with_helpers_examples:
  "jac_from_f_with_helpers simplify_fn [Mul (Atom (Y 0)) (Atom (Y 1))] [] False 2
     = [[Atom (Y 1), Atom (Y 0)]] \<and>
   jac_from_f_with_helpers simplify_fn [Mul (Atom (Y 0)) (Atom (Y 1))] [] True 2
     = [[simplify_fn (Atom (Y 1)), simplify_fn (Atom (Y 0))]] \<and>
   dependent_helpers_of 0 [(Symbol ''h'', Add (Atom (Y 0)) (Atom (Y 1)))]
     = [(Symbol ''h'', Num 1)] \<and>
   sympy_diff (Mul (Atom (Symbol ''h'')) (Atom (Symbol ''h''))) (Y 0) = Num 0 \<and>
   jac_from_f_with_helpers simplify_fn [Mul (Atom (Symbol ''h'')) (Atom (Symbol ''h''))]
       [(Symbol ''h'', Add (Atom (Y 0)) (Atom (Y 1)))] False 2 ! 0 ! 0
     = Add (Atom (Symbol ''h'')) (Atom (Symbol ''h'')) \<and>
   eval env (jac_from_f_with_helpers simplify_fn [Mul (Atom (Symbol ''h'')) (Atom (Symbol ''h''))]
       [(Symbol ''h'', Add (Atom (Y 0)) (Atom (Y 1)))] False 2 ! 0 ! 0)
     = 2 * eval env (Atom (Symbol ''h''))"
proof -
  have dep0: "dependent_helpers_of 0 [(Symbol ''h'', Add (Atom (Y 0)) (Atom (Y 1)))]
     = [(Symbol ''h'', Num 1)]"
    by code_simp
  have a: "jac_from_f_with_helpers simplify_fn [Mul (Atom (Y 0)) (Atom (Y 1))] [] False 2
     = [[Atom (Y 1), Atom (Y 0)]]"
    by code_simp
  have b: "jac_from_f_with_helpers simplify_fn [Mul (Atom (Y 0)) (Atom (Y 1))] [] True 2
     = [[simplify_fn (Atom (Y 1)), simplify_fn (Atom (Y 0))]]"
    by code_simp
  have d: "sympy_diff (Mul (Atom (Symbol ''h'')) (Atom (Symbol ''h''))) (Y 0) = Num 0"
    by code_simp
  have c: "jac_from_f_with_helpers simplify_fn [Mul (Atom (Symbol ''h'')) (Atom (Symbol ''h''))]
       [(Symbol ''h'', Add (Atom (Y 0)) (Atom (Y 1)))] False 2 ! 0 ! 0
     = Add (Atom (Symbol ''h'')) (Atom (Symbol ''h''))"
    by code_simp
  have e: "eval env (Add (Atom (Symbol ''h'')) (Atom (Symbol ''h'')))
     = 2 * eval env (Atom (Symbol ''h''))"
    by simp
  show ?thesis
    unfolding a b dep0 d c e by (simp only: simp_thms)
qed

subsection \<open>The dimension of the tangent-space system\<close>

lemma length_jac_from_f_with_helpers:
  "length (jac_from_f_with_helpers simplify_fn f helpers simplify n) = length f"
  by (simp add: jac_from_f_with_helpers_def Let_def)

text \<open>\<^verbatim>\<open>f_lyap\<close> yields the base entries and then, for each tangent vector, one entry per
  row of the Jacobian, that is, per base entry.\<close>

lemma length_f_lyap:
  "length (f_lyap ext f_basic helpers n n_lyap) = length f_basic + nat n_lyap * length f_basic"
proof -
  have "sum_list (map (\<lambda>i. length f_basic) [0..<nat n_lyap]) = nat n_lyap * length f_basic"
    by (simp add: sum_list_triv)
  then show ?thesis
    by (simp add: f_lyap_def length_concat comp_def length_jac_from_f_with_helpers)
qed

lemma sort_helpers_Nil: "sort_helpers [] = Inr []"
  by (simp add: sort_helpers.simps)

text \<open>
  For a sequence of \<open>L\<close> base equations, no helpers and a request of \<open>n_lyap\<close> exponents
  with \<open>0 < n_lyap \<le> L\<close>: the instance is built, it declares the dimension
  \<open>n_lyap * (L + 1)\<close>, and its right-hand side yields \<open>L * (n_lyap + 1)\<close> entries.
\<close>

lemma jitcode_lyap_init_dimensions:
  assumes "0 < n_lyap" and "n_lyap \<le> int (length f_basic)"
  shows "\<exists>inst. jitcode_lyap_init ext (Iterable f_basic) None wants_jacobian None n_lyap = Inr inst \<and>
           self_n inst = n_lyap * (int (length f_basic) + 1) \<and>
           int (length (self_f_sym inst)) = int (length f_basic) * (n_lyap + 1) \<and>
           self_n_basic inst = int (length f_basic) \<and> self_n_lyap inst = n_lyap"
proof -
  from assms have nz: "n_lyap * (int (length f_basic) + 1) \<noteq> 0" by simp
  from assms have "int (nat n_lyap * length f_basic) = n_lyap * int (length f_basic)"
    by simp
  then have len: "int (length (f_lyap ext f_basic [] (int (length f_basic)) n_lyap))
      = int (length f_basic) * (n_lyap + 1)"
    by (simp add: length_f_lyap algebra_simps)
  show ?thesis
    using assms nz len
    by (simp add: jitcode_lyap_init_def jitcode_init_def sympify_helpers_def sort_helpers_Nil
        Let_def jitcode.extend_def)
qed

text \<open>
  Claim C1 says that the declared dimension of a \<open>jitcode_lyap\<close> instance is
  \<open>n_lyap * (n + 1)\<close> and that \<open>f_lyap\<close> yields exactly that many expressions. The
  constructor does declare \<open>n_lyap * (n + 1)\<close>, but \<open>f_lyap\<close> yields \<open>n * (n_lyap + 1)\<close>
  expressions, and the two differ whenever \<open>n_lyap\<close> is not \<open>n\<close>. For three base
  equations and one exponent the instance declares dimension 4 and its right-hand side
  yields 6 expressions.
\<close>

theorem jitcode_lyap_declares_4_yields_6:
  "\<exists>inst. jitcode_lyap_init ext (Iterable [e1, e2, e3]) None wants_jacobian None 1 = Inr inst \<and>
          self_n_basic inst = 3 \<and> self_n_lyap inst = 1 \<and>
          self_n inst = 4 \<and> length (self_f_sym inst) = 6"
proof -
  from jitcode_lyap_init_dimensions [of 1 "[e1, e2, e3]" ext wants_jacobian]
  obtain inst where
    i: "jitcode_lyap_init ext (Iterable [e1, e2, e3]) None wants_jacobian None 1 = Inr inst"
      "self_n inst = 1 * (int (length [e1, e2, e3]) + 1)"
      "int (length (self_f_sym inst)) = int (length [e1, e2, e3]) * (1 + 1)"
      "self_n_basic inst = int (length [e1, e2, e3])" "self_n_lyap inst = 1"
    by auto
  from i(2) have "self_n inst = 4" by simp
  moreover from i(3) have "length (self_f_sym inst) = 6" by simp
  moreover from i(4) have "self_n_basic inst = 3" by simp
  ultimately show ?thesis using i(1,5) by blast
qed

subsection \<open>Emitting the right-hand side and the Jacobian\<close>

text \<open>
  \<open>generate_f_C\<close> and \<open>generate_jac_C\<close> call \<open>render_and_write_code\<close> with four
  positional arguments: the producer, \<^verbatim>\<open>self._tmpfile\<close>, the name and the dictionary of
  user functions. The function takes \<^verbatim>\<open>helpers\<close> in second place, so the dictionary is
  bound to \<^verbatim>\<open>name\<close>, and \<^verbatim>\<open>"set_" + name\<close> raises a type error before any file is
  opened.
\<close>

lemma render_and_write_code_dict_name:
  "render_and_write_code ext expressions helpers tmpfile_arg (PyDict d) user_functions chunk_size
     arguments fs = Some (Inl TypeError)"
  by (simp add: render_and_write_code_def)

lemma call_emitter_dict_name:
  "call_emitter
     (render_and_write_code ext expressions helpers tmpfile_arg (PyDict d) user_functions chunk_size
        arguments) ext st = Raises TypeError st"
  by (cases st) (simp add: call_emitter_def render_and_write_code_dict_name)

lemma and_then_Raises [simp]: "and_then (Raises e st) k = Raises e st"
  by (simp add: and_then_def)

lemma and_then_Returns [simp]: "and_then (Returns st) k = k st"
  by (simp add: and_then_def)

lemma and_then_Diverges [simp]: "and_then Diverges k = Diverges"
  by (simp add: and_then_def)

lemma generate_f_C_raises:
  "generate_f_C ext simplify do_cse chunk_size st = Raises TypeError st"
  by (simp add: generate_f_C_def call_emitter_dict_name Let_def)

lemma generate_jac_sym_if_needed_Returns:
  "\<exists>self'. generate_jac_sym_if_needed ext (p, self) = Returns (p, self') \<and>
     self_jac_sym self' \<noteq> None \<and>
     (self_jac_sym self \<noteq> None \<longrightarrow> self' = self) \<and>
     self_t self' = self_t self \<and> self_y self' = self_y self"
  by (auto simp: generate_jac_sym_if_needed_def generate_jac_sym_def)

lemma generate_jac_C_raises:
  "\<exists>st'. generate_jac_C ext do_cse chunk_size sparse st = Raises TypeError st' \<and>
     fst st' = fst st \<and> self_t (snd st') = self_t (snd st) \<and> self_y (snd st') = self_y (snd st)"
proof -
  obtain p self where st: "st = (p, self)" by (cases st)
  from generate_jac_sym_if_needed_Returns [of ext p self] obtain self' where
    s: "generate_jac_sym_if_needed ext (p, self) = Returns (p, self')"
      "self_t self' = self_t self" "self_y self' = self_y self"
    by blast
  show ?thesis
    unfolding st generate_jac_C_def s(1)
    using s(2,3) by (simp add: call_emitter_dict_name Let_def)
qed

lemma jac_assignments_diagonal:
  "jac_assignments True [[a, Num 0, Num 0], [Num 0, b, Num 0], [Num 0, Num 0, c]] =
     (if a \<noteq> Num 0 then [Assign ''set_dfdy'' [0, 0] a] else []) @
     (if b \<noteq> Num 0 then [Assign ''set_dfdy'' [1, 1] b] else []) @
     (if c \<noteq> Num 0 then [Assign ''set_dfdy'' [2, 2] c] else [])"
  by (simp add: jac_assignments_def)

text \<open>
  Claim C6 says that generating the Jacobian code for a 3-by-3 Jacobian with non-zero
  entries on the diagonal only emits 3 assignments when sparse and 9 when not. The
  producer built by \<open>generate_jac_C\<close> does yield 3 and 9 assignments, but the emitter is
  called with the arguments out of place and raises a type error: the method raises
  for every instance and every setting, and the file system is left as it was.
\<close>

theorem generate_jac_C_diagonal:
  "generate_jac_C ext False chunk_size sparse
     (p, self\<lparr>self_jac_sym :=
              Some [[Atom (Y 0), Num 0, Num 0], [Num 0, Atom (Y 1), Num 0], [Num 0, Num 0, Atom (Y 2)]]\<rparr>)
   = Raises TypeError
     (p, self\<lparr>self_jac_sym :=
              Some [[Atom (Y 0), Num 0, Num 0], [Num 0, Atom (Y 1), Num 0], [Num 0, Num 0, Atom (Y 2)]],
            self_sparse_jac := Some sparse\<rparr>) \<and>
   length (jac_assignments True
     [[Atom (Y 0), Num 0, Num 0], [Num 0, Atom (Y 1), Num 0], [Num 0, Num 0, Atom (Y 2)]]) = 3 \<and>
   length (jac_assignments False
     [[Atom (Y 0), Num 0, Num 0], [Num 0, Atom (Y 1), Num 0], [Num 0, Num 0, Atom (Y 2)]]) = 9 \<and>
   (\<exists>st'. generate_jac_C ext do_cse chunk_size sparse st = Raises TypeError st' \<and> fst st' = fst st)"
proof -
  have "generate_jac_C ext False chunk_size sparse
     (p, self\<lparr>self_jac_sym :=
              Some [[Atom (Y 0), Num 0, Num 0], [Num 0, Atom (Y 1), Num 0], [Num 0, Num 0, Atom (Y 2)]]\<rparr>)
   = Raises TypeError
     (p, self\<lparr>self_jac_sym :=
              Some [[Atom (Y 0), Num 0, Num 0], [Num 0, Atom (Y 1), Num 0], [Num 0, Num 0, Atom (Y 2)]],
            self_sparse_jac := Some sparse\<rparr>)"
    by (simp add: generate_jac_C_def generate_jac_sym_if_needed_def call_emitter_dict_name Let_def)
  moreover have "length (jac_assignments True
     [[Atom (Y 0), Num 0, Num 0], [Num 0, Atom (Y 1), Num 0], [Num 0, Num 0, Atom (Y 2)]]) = 3"
    by (simp add: jac_assignments_def)
  moreover have "length (jac_assignments False
     [[Atom (Y 0), Num 0, Num 0], [Num 0, Atom (Y 1), Num 0], [Num 0, Num 0, Atom (Y 2)]]) = 9"
    by (simp add: jac_assignments_def)
  moreover have "\<exists>st'. generate_jac_C ext do_cse chunk_size sparse st = Raises TypeError st' \<and> fst st' = fst st"
    using generate_jac_C_raises [of ext do_cse chunk_size sparse st] by blast
  ultimately show ?thesis by blast
qed

theorem generate_jac_C_diagonal_witness:
  "length (jac_assignments True
     [[Atom (Y 0), Num 0, Num 0], [Num 0, Atom (Y 1), Num 0], [Num 0, Num 0, Atom (Y 2)]]) = 3 \<and>
   length (jac_assignments False
     [[Atom (Y 0), Num 0, Num 0], [Num 0, Atom (Y 1), Num 0], [Num 0, Num 0, Atom (Y 2)]]) = 9 \<and>
   (\<exists>st'. generate_jac_C ext_example False 100 True (process_example, jitcode_example)
            = Raises TypeError st' \<and> fst st' = process_example)"
  using generate_jac_C_diagonal [of ext_example 100 True process_example jitcode_example
      False "(process_example, jitcode_example)"]
  by simp

subsection \<open>Compiling twice under one name\<close>

lemma compile_C_without_source:
  "\<not> self_f_C_source self \<Longrightarrow>
   compile_C ext extra_compile_args modulename (p, self) = Raises TypeError (p, self)"
  by (simp add: compile_C_def generate_f_C_if_needed_def generate_f_C_raises)

text \<open>Where the name check is reached (the sources are marked as generated and there are
  no helpers), a requested name that is in \<^verbatim>\<open>sys.modules\<close> is refused.\<close>

lemma compile_C_name_in_use:
  assumes "self_f_C_source self" and "\<not> self_wants_jacobian self" and "self_helpers self = []"
    and "name \<noteq> []" and "name \<in> set (sys_modules p)"
  shows "compile_C ext extra_compile_args (Some name) (p, self) = Raises NameError (p, self)"
  using assms
  by (simp add: compile_C_def generate_f_C_if_needed_def generate_jac_C_if_needed_def
      generate_helpers_C_if_needed_def build_and_load_def)

text \<open>
  Claim C7 says that the second of two calls of \<open>compile_C\<close> with the same requested name
  fails because the name is in use. For an instance as the constructor leaves it, the
  first call already fails: generating the code of the right-hand side raises a type
  error, whatever \<^verbatim>\<open>sys.modules\<close> holds, and neither the instance nor the process
  changes. So the second call is the first call again, with the same type error; the
  name is never entered, and the name check is never reached.
\<close>

theorem compile_C_twice:
  "\<exists>self. jitcode_init (Iterable f_sym) None wants_jacobian None verbose = Inr self \<and>
     compile_C ext extra_compile_args (Some name) (p, self) = Raises TypeError (p, self) \<and>
     and_then_raised (compile_C ext extra_compile_args (Some name) (p, self))
       (compile_C ext extra_compile_args (Some name)) = Raises TypeError (p, self)"
proof -
  obtain self where i: "jitcode_init (Iterable f_sym) None wants_jacobian None verbose = Inr self"
    and s: "\<not> self_f_C_source self"
    by (simp add: jitcode_init_def sympify_helpers_def sort_helpers_Nil)
  from s have c: "compile_C ext extra_compile_args (Some name) (p, self) = Raises TypeError (p, self)"
    by (rule compile_C_without_source)
  then have "and_then_raised (compile_C ext extra_compile_args (Some name) (p, self))
       (compile_C ext extra_compile_args (Some name)) = Raises TypeError (p, self)"
    by (simp add: and_then_raised_def)
  with i c show ?thesis by blast
qed

subsection \<open>Switching the integrator\<close>

text \<open>Every loop on the way finishes, by returning or by raising: the chunk loop for a
  positive chunk size, and the search for an unused module name.\<close>

lemma chunk_loop_returns:
  "0 < chunk_size \<Longrightarrow>
   \<exists>r. chunk_loop lines mainfile deffile funcname chunk_size arguments = Some r"
proof (induction lines mainfile deffile funcname chunk_size arguments rule: chunk_loop.induct)
  case (1 lines mainfile deffile funcname chunk_size arguments)
  show ?case
  proof (cases "length lines < nat chunk_size")
    case True
    with "1.prems" show ?thesis
      by (simp add: chunk_loop_last)
  next
    case False
    then have ge: "nat chunk_size \<le> length lines" by simp
    show ?thesis
    proof (cases "count_up funcname")
      case (Inl e)
      from chunk_loop_raise [OF "1.prems" ge Inl] show ?thesis by simp
    next
      case (Inr funcname')
      from "1.prems" have "\<not> chunk_size < 1" by simp
      from "1.IH" [OF refl refl this False Inr "1.prems"]
      show ?thesis
        by (simp add: chunk_loop_step [OF "1.prems" ge Inr])
    qed
  qed
qed

lemma write_in_chunks_returns:
  "0 < chunk_size \<Longrightarrow>
   \<exists>r. write_in_chunks lines mainfile deffile name chunk_size arguments = Some r"
  using chunk_loop_returns [of chunk_size lines mainfile deffile "''definitions_'' @ name" arguments]
  by (simp add: write_in_chunks_def)

lemma emit_files_returns:
  "\<exists>r. emit_files helperlines codelines mainfile helper_name code_name chunk_size
         helper_arguments arguments = Some r"
proof (cases "chunk_size < 1")
  case True
  then show ?thesis by (simp add: emit_files_def)
next
  case False
  then have pos: "0 < chunk_size" by simp
  from write_in_chunks_returns [OF pos] obtain r where
    r: "write_in_chunks helperlines mainfile '''' helper_name chunk_size helper_arguments = Some r"
    by blast
  show ?thesis
  proof (cases r)
    case (Inl e)
    with r False show ?thesis by (simp add: emit_files_def)
  next
    case (Inr md)
    obtain m d where md: "md = (m, d)" by (cases md)
    from r Inr md False write_in_chunks_returns [OF pos, of codelines m d code_name arguments]
    show ?thesis by (simp add: emit_files_def)
  qed
qed

lemma render_and_write_code_old_returns:
  "render_and_write_code_old ext expressions helpers tmpfile_arg name chunk_size arguments fs \<noteq> None"
proof -
  let ?hl = "checked_lines (map (\<lambda>helper. ext_ccode_assign ext (snd helper) (fst helper)) helpers) nl"
  let ?cl = "checked_lines (map (ext_ccode ext) expressions) ('';'' @ nl)"
  show ?thesis
  proof (cases ?hl)
    case (Inl e)
    then show ?thesis by (simp add: render_and_write_code_old_def Let_def)
  next
    case hl: (Inr helperlines)
    show ?thesis
    proof (cases ?cl)
      case (Inl e)
      with hl show ?thesis by (simp add: render_and_write_code_old_def Let_def)
    next
      case cl: (Inr codelines)
      obtain r where r: "emit_files helperlines codelines [] (name @ ''helpers'') (name @ ''code'')
          chunk_size (tl arguments) arguments = Some r"
        using emit_files_returns [of helperlines codelines "[]" "name @ ''helpers''"
            "name @ ''code''" chunk_size "tl arguments" arguments]
        by blast
      show ?thesis
      proof (cases r)
        case (Inl e)
        with hl cl r show ?thesis by (simp add: render_and_write_code_old_def Let_def)
      next
        case (Inr md)
        obtain m d where "md = (m, d)" by (cases md)
        with Inr hl cl r show ?thesis by (simp add: render_and_write_code_old_def Let_def)
      qed
    qed
  qed
qed

lemma filter_length_less:
  assumes "\<And>x. P x \<Longrightarrow> Q x" and "x \<in> set xs" and "Q x" and "\<not> P x"
  shows "length (filter P xs) < length (filter Q xs)"
proof -
  have "filter P xs = filter P (filter Q xs)"
    using assms(1) by (auto intro: filter_cong)
  moreover have "x \<in> set (filter Q xs)" using assms(2,3) by simp
  ultimately show ?thesis
    using length_filter_less [of x "filter Q xs" P] assms(4) by simp
qed

lemma unused_modulename_returns: "\<exists>r. unused_modulename modules name = Some r"
proof (induction "length (filter (\<lambda>m. decimal_value (snd (rsplit_int name))
                                        \<le> decimal_value (snd (rsplit_int m))) modules)"
    arbitrary: name rule: less_induct)
  case less
  show ?case
  proof (cases "name \<in> set modules")
    case False
    then show ?thesis by (simp add: unused_modulename.simps)
  next
    case True
    show ?thesis
    proof (cases "count_up name")
      case (Inl e)
      with True show ?thesis by (simp add: unused_modulename.simps [of modules name])
    next
      case (Inr name')
      have "length (filter (\<lambda>m. decimal_value (snd (rsplit_int name'))
                                   \<le> decimal_value (snd (rsplit_int m))) modules)
          < length (filter (\<lambda>m. decimal_value (snd (rsplit_int name))
                                   \<le> decimal_value (snd (rsplit_int m))) modules)"
        using True
        by (intro filter_length_less [of _ _ name]) (simp_all add: count_up_counter [OF Inr])
      from less [OF this] obtain r where "unused_modulename modules name' = Some r"
        by blast
      with True Inr show ?thesis by (simp add: unused_modulename.simps [of modules name])
    qed
  qed
qed

text \<open>None of the generation and build steps touches the time or the state vector.\<close>

lemma same_t_y_refl [simp]: "same_t_y st st"
  by (simp add: same_t_y_def)

lemma same_t_y_trans: "same_t_y a b \<Longrightarrow> same_t_y b c \<Longrightarrow> same_t_y a c"
  by (simp add: same_t_y_def)

lemma finishes_and_then:
  assumes "finishes_keeping_t_y st r"
    and "\<And>st'. same_t_y st st' \<Longrightarrow> finishes_keeping_t_y st' (k st')"
  shows "finishes_keeping_t_y st (and_then r k)"
proof (cases r)
  case (Returns st')
  with assms(1) have s: "same_t_y st st'" by (simp add: finishes_keeping_t_y_def)
  from assms(2) [OF s] s Returns show ?thesis
    by (auto simp: finishes_keeping_t_y_def same_t_y_def split: outcome.splits)
next
  case (Raises e st')
  with assms(1) show ?thesis by (simp add: finishes_keeping_t_y_def)
next
  case Diverges
  with assms(1) show ?thesis by (simp add: finishes_keeping_t_y_def)
qed

lemma finishes_Returns [simp]: "finishes_keeping_t_y st (Returns st') = same_t_y st st'"
  by (simp add: finishes_keeping_t_y_def)

lemma finishes_Raises [simp]: "finishes_keeping_t_y st (Raises e st') = same_t_y st st'"
  by (simp add: finishes_keeping_t_y_def)

lemma finishes_call_emitter:
  "emitter (fs_files (fst st)) \<noteq> None \<Longrightarrow> finishes_keeping_t_y st (call_emitter emitter ext st)"
  by (cases st)
    (auto simp: call_emitter_def same_t_y_def with_tmpdir_def split: option.splits sum.splits)

lemma finishes_generate_f_C_if_needed:
  "finishes_keeping_t_y st (generate_f_C_if_needed ext st)"
  by (simp add: generate_f_C_if_needed_def generate_f_C_raises)

lemma finishes_generate_jac_C_if_needed:
  "finishes_keeping_t_y st (generate_jac_C_if_needed ext st)"
  using generate_jac_C_raises [of ext False 100 True st]
  by (auto simp: generate_jac_C_if_needed_def same_t_y_def)

lemma finishes_generate_helpers_C_if_needed:
  "finishes_keeping_t_y st (generate_helpers_C_if_needed ext st)"
  by (simp add: generate_helpers_C_if_needed_def generate_helpers_C_def finishes_call_emitter
      render_and_write_code_old_returns)

lemma finishes_build_and_load:
  "finishes_keeping_t_y st (build_and_load ext extra_compile_args modulename st)"
proof -
  obtain p self where st: "st = (p, self)" by (cases st)
  obtain r where r: "unused_modulename (sys_modules p) (self_modulename self) = Some r"
    using unused_modulename_returns by blast
  show ?thesis
  proof (cases r)
    case (Inl e)
    with r show ?thesis
      unfolding st
      by (simp add: build_and_load_def same_t_y_def with_tmpdir_def Let_def)
  next
    case (Inr chosen)
    with r show ?thesis
      unfolding st
      by (simp add: build_and_load_def same_t_y_def with_tmpdir_def Let_def)
  qed
qed

lemma finishes_compile_C:
  "finishes_keeping_t_y st (compile_C ext extra_compile_args modulename st)"
  unfolding compile_C_def
  by (intro finishes_and_then finishes_generate_f_C_if_needed finishes_generate_jac_C_if_needed
      finishes_generate_helpers_C_if_needed finishes_build_and_load)

lemma generate_lambdas_Returns:
  "\<exists>st'. generate_lambdas ext st = Returns st' \<and> same_t_y st st'"
proof -
  obtain p self where st: "st = (p, self)" by (cases st)
  have "\<And>q s. \<exists>s'. generate_jac_lambda ext (q, s) = Returns (q, s') \<and>
      self_t s' = self_t s \<and> self_y s' = self_y s"
  proof -
    fix q s
    from generate_jac_sym_if_needed_Returns [of ext q s] show
      "\<exists>s'. generate_jac_lambda ext (q, s) = Returns (q, s') \<and>
        self_t s' = self_t s \<and> self_y s' = self_y s"
      by (auto simp: generate_jac_lambda_def)
  qed
  then show ?thesis
    unfolding st
    by (fastforce simp: generate_lambdas_def generate_f_lambda_def same_t_y_def)
qed

lemma generate_functions_Returns:
  "\<exists>st'. generate_functions ext st = Returns st' \<and> same_t_y st st'"
proof -
  have fin: "finishes_keeping_t_y st (compile_C_if_needed ext st)"
    by (simp add: compile_C_if_needed_def finishes_compile_C)
  show ?thesis
  proof (cases "compile_C_if_needed ext st")
    case (Returns st')
    with fin show ?thesis by (simp add: generate_functions_def)
  next
    case (Raises e st')
    with fin have s: "same_t_y st st'" by simp
    from generate_lambdas_Returns [of ext st'] obtain st'' where
      "generate_lambdas ext st' = Returns st''" "same_t_y st' st''" by blast
    with s Raises show ?thesis
      by (auto simp: generate_functions_def intro: same_t_y_trans)
  next
    case Diverges
    with fin show ?thesis by (simp add: finishes_keeping_t_y_def)
  qed
qed

lemma generate_functions_if_needed_Returns:
  "\<exists>st'. generate_functions_if_needed ext st = Returns st' \<and> same_t_y st st'"
proof (cases "self_f (snd st) = PyNone \<or> (self_wants_jacobian (snd st) \<and> self_jac (snd st) = PyNone)")
  case True
  with generate_functions_Returns [of ext st] show ?thesis
    by (simp add: generate_functions_if_needed_def)
next
  case False
  then have "generate_functions_if_needed ext st = Returns st"
    by (auto simp: generate_functions_if_needed_def)
  then show ?thesis by simp
qed

text \<open>
  Claim C8. On an instance whose time is set (an initial value was given),
  \<open>set_integrator\<close> with a name other than \<^verbatim>\<open>zvode\<close> for which SciPy has an integrator
  returns, and the instance it returns has the time and the state vector it had before.
\<close>

theorem set_integrator_keeps_t_y:
  assumes "self_t self = Some t0" and "ext_find_integrator ext name = Some b"
    and "name \<noteq> ''zvode''"
  shows "\<exists>p' self'. set_integrator (Suc depth) ext name (p, self) = Returns (p', self') \<and>
           self_t self' = Some t0 \<and> self_y self' = self_y self \<and>
           self_integrator self' = Some name"
proof -
  let ?st0 = "(p, self\<lparr>self_wants_jacobian := self_wants_jacobian self \<or> b\<rparr>)"
  from generate_functions_if_needed_Returns [of ext ?st0] obtain p1 self1 where
    g: "generate_functions_if_needed ext ?st0 = Returns (p1, self1)"
    and s: "same_t_y ?st0 (p1, self1)"
    by (cases "generate_functions_if_needed ext ?st0") auto
  from s assms(1) have t1: "self_t self1 = Some t0" and y1: "self_y self1 = self_y self"
    by (simp_all add: same_t_y_def)
  have reinit: "ode_set_integrator ext name (ode_init (p1, self1)) =
      (p1, self1\<lparr>self_y := [], self_integrator := Some name, self_t := Some 0, self_y := [0]\<rparr>)"
    using assms(2) by (simp add: ode_set_integrator_def ode_init_def)
  have "set_integrator (Suc depth) ext name (p, self) =
      Returns (p1, self1\<lparr>self_y := [], self_integrator := Some name, self_t := Some 0, self_y := [0],
                         self_y := self_y self1, self_t := Some t0\<rparr>)"
    using assms g t1 by (simp add: can_use_jacobian_def reinit ode_set_initial_value_def)
  with y1 show ?thesis by simp
qed

text \<open>The concrete instance is the one the facade reaches from its constructor by
  \<^verbatim>\<open>set_initial_value([1, 0], 2)\<close>.\<close>

lemma jitcode_example_reached:
  "\<exists>self. jitcode_init (Iterable [Atom (Y 1), Mul (Num (- 1)) (Atom (Y 0))]) None False None True
            = Inr self \<and>
     set_initial_value 2 ext_example [1, 0] 2 (process_example, self)
       = Returns (process_example, jitcode_example)"
  by (simp add: jitcode_init_def sympify_helpers_def sort_helpers_Nil set_initial_value_def
      ode_set_initial_value_def can_use_jacobian_def ext_example_def
      generate_functions_if_needed_def generate_functions_def compile_C_if_needed_def
      compile_C_without_source generate_lambdas_def generate_f_lambda_def generate_jac_lambda_def
      generate_jac_sym_if_needed_def generate_jac_sym_def ode_set_integrator_def ode_init_def
      jitcode_example_def numeral_2_eq_2)

theorem set_integrator_keeps_t_y_witness:
  "\<exists>p' self'. set_integrator 1 ext_example ''dopri5'' (process_example, jitcode_example)
       = Returns (p', self') \<and>
     self_t self' = Some 2 \<and> self_y self' = [1, 0] \<and> self_integrator self' = Some ''dopri5''"
proof -
  have "self_t jitcode_example = Some 2" "self_y jitcode_example = [1, 0]"
    by (simp_all add: jitcode_example_def)
  moreover have "ext_find_integrator ext_example ''dopri5'' = Some False"
    by (simp add: ext_example_def)
  moreover have "''dopri5'' \<noteq> ''zvode''" by simp
  ultimately show ?thesis
    using set_integrator_keeps_t_y [of jitcode_example 2 ext_example "''dopri5''" False 0
        process_example]
    by simp
qed

subsection \<open>Orthonormalisation\<close>


lemma dot_Nil [simp]: "dot [] v = 0" "dot u [] = 0"
  by (simp_all add: dot_def)

lemma dot_Cons [simp]: "dot (a # u) (b # v) = a * b + dot u v"
  by (simp add: dot_def)

lemma dot_commute: "dot u v = dot v u"
proof (induction u arbitrary: v)
  case Nil
  then show ?case by simp
next
  case (Cons a u)
  then show ?case by (cases v) simp_all
qed

lemma dot_sub_left:
  "length u = length q \<Longrightarrow> length q = length v \<Longrightarrow>
   dot (map2 (\<lambda>a b. a - c * b) u q) v = dot u v - c * dot q v"
  by (induction u q v rule: list_induct3) (simp_all add: algebra_simps)

lemma dot_div_left: "dot (map (\<lambda>x. x / n) w) v = dot w v / n"
proof (induction w arbitrary: v)
  case Nil
  then show ?case by simp
next
  case (Cons a w)
  then show ?case by (cases v) (simp_all add: add_divide_distrib)
qed

lemma dot_self_nonneg: "0 \<le> dot w w"
  by (induction w) simp_all

lemma dot_self_zero: "dot w w = 0 \<Longrightarrow> w = replicate (length w) 0"
proof (induction w)
  case Nil
  then show ?case by simp
next
  case (Cons a w)
  from Cons.prems have "a * a + dot w w = 0" by simp
  moreover have "0 \<le> a * a" by simp
  moreover note dot_self_nonneg [of w]
  ultimately have "a * a = 0" "dot w w = 0" by linarith+
  with Cons.IH show ?case by simp
qed

lemma vnorm_zero: "vnorm w = 0 \<Longrightarrow> w = replicate (length w) 0"
  by (simp add: vnorm_def dot_self_zero)

lemma vnorm_sq: "vnorm w * vnorm w = dot w w"
  by (simp add: vnorm_def dot_self_nonneg)

lemma orthogonalise_length:
  "\<forall>q\<in>set qs. length q = d \<Longrightarrow> length v = d \<Longrightarrow>
   \<exists>w. orthogonalise v qs = Inr w \<and> length w = d"
  by (induction qs arbitrary: v) simp_all

lemma orthogonalise_keeps_orthogonal:
  "\<forall>q\<in>set qs. length q = d \<Longrightarrow> length v = d \<Longrightarrow> length p = d \<Longrightarrow>
   dot v p = 0 \<Longrightarrow> \<forall>q\<in>set qs. dot q p = 0 \<Longrightarrow> orthogonalise v qs = Inr w \<Longrightarrow> dot w p = 0"
proof (induction qs arbitrary: v)
  case Nil
  then show ?case by simp
next
  case (Cons q qs)
  let ?v1 = "map2 (\<lambda>a b. a - dot v q * b) v q"
  from Cons.prems have "dot ?v1 p = 0"
    by (simp add: dot_sub_left)
  moreover from Cons.prems have "length ?v1 = d" by simp
  moreover from Cons.prems have "orthogonalise ?v1 qs = Inr w" by simp
  ultimately show ?case
    using Cons.IH [of ?v1] Cons.prems by simp
qed

lemma orthogonalise_orthogonal:
  "\<forall>q\<in>set qs. length q = d \<and> dot q q = 1 \<Longrightarrow> length v = d \<Longrightarrow>
   sorted_wrt (\<lambda>a b. dot a b = 0) qs \<Longrightarrow>
   orthogonalise v qs = Inr w \<Longrightarrow> \<forall>q\<in>set qs. dot w q = 0"
proof (induction qs arbitrary: v)
  case Nil
  then show ?case by simp
next
  case (Cons q qs)
  let ?v1 = "map2 (\<lambda>a b. a - dot v q * b) v q"
  from Cons.prems have len: "length ?v1 = d" "length q = d" by simp_all
  from Cons.prems have w: "orthogonalise ?v1 qs = Inr w" by simp
  from Cons.prems have "dot ?v1 q = 0"
    by (simp add: dot_sub_left)
  moreover from Cons.prems have "\<forall>q'\<in>set qs. dot q' q = 0"
    by (simp add: dot_commute)
  ultimately have "dot w q = 0"
    using orthogonalise_keeps_orthogonal [of qs d ?v1 q w] Cons.prems len w by simp
  moreover have "\<forall>q'\<in>set qs. dot w q' = 0"
    using Cons.IH [of ?v1] Cons.prems len w by simp
  ultimately show ?case by simp
qed

lemma length_vadd [simp]: "length (vadd u v) = min (length u) (length v)"
  by (simp add: vadd_def)

lemma length_smult [simp]: "length (smult c v) = length v"
  by (simp add: smult_def)

lemma nth_vadd [simp]: "i < length u \<Longrightarrow> i < length v \<Longrightarrow> vadd u v ! i = u ! i + v ! i"
  by (simp add: vadd_def)

lemma nth_smult [simp]: "i < length v \<Longrightarrow> smult c v ! i = c * v ! i"
  by (simp add: smult_def)

lemma length_lincomb [simp]:
  "\<forall>v\<in>set us. length v = d \<Longrightarrow> length (lincomb d cs us) = d"
  by (induction d cs us rule: lincomb.induct) simp_all

lemma lincomb_add:
  "length cs = length us \<Longrightarrow> length us = length cs' \<Longrightarrow> \<forall>v\<in>set us. length v = d \<Longrightarrow>
   vadd (lincomb d cs us) (lincomb d cs' us) = lincomb d (map2 (+) cs cs') us"
proof (induction cs us cs' rule: list_induct3)
  case Nil
  show ?case by (rule nth_equalityI) simp_all
next
  case (Cons c cs u us c' cs')
  then have ih: "vadd (lincomb d cs us) (lincomb d cs' us) = lincomb d (map2 (+) cs cs') us"
    and len: "length u = d" "\<forall>v\<in>set us. length v = d"
    by simp_all
  have "vadd (vadd (smult c u) (lincomb d cs us)) (vadd (smult c' u) (lincomb d cs' us))
      = vadd (smult (c + c') u) (vadd (lincomb d cs us) (lincomb d cs' us))"
    using len by (intro nth_equalityI) (simp_all add: algebra_simps)
  with ih show ?case by simp
qed

lemma lincomb_smult:
  "length cs = length us \<Longrightarrow> \<forall>v\<in>set us. length v = d \<Longrightarrow>
   smult c (lincomb d cs us) = lincomb d (map (\<lambda>x. c * x) cs) us"
proof (induction cs us rule: list_induct2)
  case Nil
  show ?case by (rule nth_equalityI) simp_all
next
  case (Cons a cs u us)
  then have ih: "smult c (lincomb d cs us) = lincomb d (map (\<lambda>x. c * x) cs) us"
    and len: "length u = d" "\<forall>v\<in>set us. length v = d"
    by simp_all
  have "smult c (vadd (smult a u) (lincomb d cs us))
      = vadd (smult (c * a) u) (smult c (lincomb d cs us))"
    using len by (intro nth_equalityI) (simp_all add: algebra_simps)
  with ih show ?case by simp
qed

lemma lincomb_snoc:
  "length cs = length us \<Longrightarrow> \<forall>u\<in>set us. length u = d \<Longrightarrow> length v = d \<Longrightarrow>
   lincomb d (cs @ [c]) (us @ [v]) = vadd (lincomb d cs us) (smult c v)"
proof (induction cs us rule: list_induct2)
  case Nil
  then show ?case by (intro nth_equalityI) simp_all
next
  case (Cons a cs u us)
  then have ih: "lincomb d (cs @ [c]) (us @ [v]) = vadd (lincomb d cs us) (smult c v)"
    and len: "length u = d" "\<forall>v\<in>set us. length v = d" "length v = d"
    by simp_all
  have "vadd (smult a u) (vadd (lincomb d cs us) (smult c v))
      = vadd (vadd (smult a u) (lincomb d cs us)) (smult c v)"
    using len by (intro nth_equalityI) (simp_all add: algebra_simps)
  with ih show ?case by simp
qed

lemma lincomb_zeros:
  "\<forall>v\<in>set us. length v = d \<Longrightarrow> lincomb d (replicate n 0) us = replicate d 0"
proof (induction us arbitrary: n)
  case Nil
  then show ?case by (cases n) simp_all
next
  case (Cons u us)
  show ?case
  proof (cases n)
    case 0
    then show ?thesis by simp
  next
    case (Suc m)
    from Cons have "lincomb d (replicate m 0) us = replicate d 0" "length u = d" by simp_all
    then have "vadd (smult 0 u) (lincomb d (replicate m 0) us) = replicate d 0"
      by (intro nth_equalityI) simp_all
    with Suc show ?thesis by simp
  qed
qed

lemma lincomb_append_zeros:
  "length cs = length us \<Longrightarrow> \<forall>v\<in>set (us @ ys). length v = d \<Longrightarrow>
   lincomb d (cs @ replicate (length ys) 0) (us @ ys) = lincomb d cs us"
proof (induction cs us rule: list_induct2)
  case Nil
  then show ?case by (simp add: lincomb_zeros)
next
  case (Cons a cs u us)
  then show ?case by simp
qed

lemma independent_prefix:
  assumes "linearly_independent d (xs @ ys)"
  shows "linearly_independent d xs"
  unfolding linearly_independent_def
proof (intro conjI allI impI)
  from assms show "\<forall>v\<in>set xs. length v = d"
    by (simp add: linearly_independent_def)
next
  fix cs assume cs: "length cs = length xs \<and> lincomb d cs xs = replicate d 0"
  from assms have len: "\<forall>v\<in>set (xs @ ys). length v = d"
    by (simp add: linearly_independent_def)
  from cs have "lincomb d (cs @ replicate (length ys) 0) (xs @ ys) = replicate d 0"
    using lincomb_append_zeros [of cs xs ys d] len by simp
  moreover from cs have "length (cs @ replicate (length ys) 0) = length (xs @ ys)" by simp
  ultimately have "\<forall>c\<in>set (cs @ replicate (length ys) 0). c = 0"
    using assms unfolding linearly_independent_def by blast
  then show "\<forall>c\<in>set cs. c = 0" by simp
qed

lemma in_span_zero: "\<forall>v\<in>set us. length v = d \<Longrightarrow> in_span d us (replicate d 0)"
  unfolding in_span_def
  using lincomb_zeros [of us d "length us"] by (intro exI [of _ "replicate (length us) 0"]) simp

lemma in_span_add:
  "\<forall>v\<in>set us. length v = d \<Longrightarrow> in_span d us x \<Longrightarrow> in_span d us y \<Longrightarrow> in_span d us (vadd x y)"
  unfolding in_span_def
proof (elim exE conjE)
  fix cs cs'
  assume "\<forall>v\<in>set us. length v = d" "length cs = length us" "x = lincomb d cs us"
    "length cs' = length us" "y = lincomb d cs' us"
  then have "vadd x y = lincomb d (map2 (+) cs cs') us" "length (map2 (+) cs cs') = length us"
    by (simp_all add: lincomb_add)
  then show "\<exists>cs. length cs = length us \<and> vadd x y = lincomb d cs us" by blast
qed

lemma in_span_smult:
  "\<forall>v\<in>set us. length v = d \<Longrightarrow> in_span d us x \<Longrightarrow> in_span d us (smult c x)"
  unfolding in_span_def
proof (elim exE conjE)
  fix cs
  assume "\<forall>v\<in>set us. length v = d" "length cs = length us" "x = lincomb d cs us"
  then have "smult c x = lincomb d (map (\<lambda>x. c * x) cs) us"
    "length (map (\<lambda>x. c * x) cs) = length us"
    by (simp_all add: lincomb_smult)
  then show "\<exists>cs. length cs = length us \<and> smult c x = lincomb d cs us" by blast
qed

lemma in_span_snoc:
  "\<forall>u\<in>set us. length u = d \<Longrightarrow> length v = d \<Longrightarrow> in_span d us x \<Longrightarrow> in_span d (us @ [v]) x"
  unfolding in_span_def
proof (elim exE conjE)
  fix cs
  assume a: "\<forall>u\<in>set us. length u = d" "length v = d" "length cs = length us" "x = lincomb d cs us"
  then have "lincomb d (cs @ [0]) (us @ [v]) = vadd (lincomb d cs us) (smult 0 v)"
    by (simp add: lincomb_snoc)
  also have "\<dots> = lincomb d cs us"
    using a by (intro nth_equalityI) simp_all
  finally have "x = lincomb d (cs @ [0]) (us @ [v])" using a by simp
  moreover have "length (cs @ [0]) = length (us @ [v])" using a by simp
  ultimately show "\<exists>cs. length cs = length (us @ [v]) \<and> x = lincomb d cs (us @ [v])" by blast
qed

lemma in_span_last:
  assumes "\<forall>u\<in>set us. length u = d" and "length v = d"
  shows "in_span d (us @ [v]) v"
proof -
  have "lincomb d (replicate (length us) 0 @ [1]) (us @ [v])
      = vadd (lincomb d (replicate (length us) 0) us) (smult 1 v)"
    using assms by (simp add: lincomb_snoc)
  also have "\<dots> = v"
    using assms by (intro nth_equalityI) (simp_all add: lincomb_zeros)
  finally have "v = lincomb d (replicate (length us) 0 @ [1]) (us @ [v])" by simp
  moreover have "length (replicate (length us) 0 @ [1::real]) = length (us @ [v])" by simp
  ultimately show ?thesis unfolding in_span_def by blast
qed

lemma independent_not_in_span:
  assumes "linearly_independent d (us @ [v])"
  shows "\<not> in_span d us v"
proof
  assume "in_span d us v"
  then obtain cs where cs: "length cs = length us" "v = lincomb d cs us"
    unfolding in_span_def by blast
  from assms have len: "\<forall>u\<in>set us. length u = d" "length v = d"
    by (simp_all add: linearly_independent_def)
  have "lincomb d (cs @ [- 1]) (us @ [v]) = vadd (lincomb d cs us) (smult (- 1) v)"
    using cs len by (simp add: lincomb_snoc)
  also have "\<dots> = replicate d 0"
    using cs(2) [symmetric] len by (intro nth_equalityI) simp_all
  finally have "lincomb d (cs @ [- 1]) (us @ [v]) = replicate d 0" .
  moreover have "length (cs @ [- 1]) = length (us @ [v])" using cs by simp
  ultimately have "\<forall>c\<in>set (cs @ [- 1]). c = 0"
    using assms unfolding linearly_independent_def by blast
  then show False by simp
qed

lemma orthogonalise_span:
  "\<forall>q\<in>set qs. length q = d \<and> in_span d us q \<Longrightarrow> \<forall>u\<in>set us. length u = d \<Longrightarrow> length v = d \<Longrightarrow>
   orthogonalise v qs = Inr w \<Longrightarrow> \<exists>s. in_span d us s \<and> w = vadd v s"
proof (induction qs arbitrary: v)
  case Nil
  then have "w = vadd v (replicate d 0)"
    by (intro nth_equalityI) simp_all
  with Nil in_span_zero [of us d] show ?case by blast
next
  case (Cons q qs)
  let ?c = "dot v q"
  let ?v1 = "map2 (\<lambda>a b. a - ?c * b) v q"
  from Cons.prems have len: "length q = d" "length v = d" "length ?v1 = d" by simp_all
  from Cons.prems have "orthogonalise ?v1 qs = Inr w" by simp
  with Cons.IH [of ?v1] Cons.prems len obtain s where s: "in_span d us s" "w = vadd ?v1 s"
    by auto
  from s(1) have ls: "length s = d"
    using Cons.prems(2) by (auto simp: in_span_def)
  have "in_span d us (vadd (smult (- ?c) q) s)"
    using Cons.prems s(1) by (intro in_span_add in_span_smult) simp_all
  moreover have "w = vadd v (vadd (smult (- ?c) q) s)"
    unfolding s(2) using len ls by (intro nth_equalityI) simp_all
  ultimately show ?case by blast
qed

lemma normalised_unit:
  assumes "vnorm w \<noteq> 0"
  shows "dot (map (\<lambda>x. x / vnorm w) w) (map (\<lambda>x. x / vnorm w) w) = 1"
proof -
  have "dot (map (\<lambda>x. x / vnorm w) w) (map (\<lambda>x. x / vnorm w) w) = dot w w / vnorm w / vnorm w"
    by (simp add: dot_div_left dot_commute [of w "map (\<lambda>x. x / vnorm w) w"])
  also have "\<dots> = dot w w / (vnorm w * vnorm w)" by simp
  also have "\<dots> = 1"
  proof -
    have "dot w w / (vnorm w * vnorm w) = (vnorm w * vnorm w) / (vnorm w * vnorm w)"
      by (simp only: vnorm_sq)
    also have "\<dots> = 1" using assms by simp
    finally show ?thesis .
  qed
  finally show ?thesis .
qed

lemma orthonormalise_loop_correct:
  assumes "linearly_independent d (us @ todo)"
    and "\<forall>q\<in>set rewritten. length q = d \<and> dot q q = 1 \<and> in_span d us q"
    and "sorted_wrt (\<lambda>a b. dot a b = 0) rewritten"
  shows "\<exists>qs ns. orthonormalise_loop rewritten todo norms = Inr (rewritten @ qs, norms @ ns) \<and>
           length qs = length todo \<and> length ns = length todo \<and>
           (\<forall>q\<in>set qs. length q = d \<and> dot q q = 1) \<and>
           sorted_wrt (\<lambda>a b. dot a b = 0) (rewritten @ qs) \<and>
           (\<forall>i<length todo. \<exists>w. orthogonalise (todo ! i) (rewritten @ take i qs) = Inr w \<and>
                ns ! i = vnorm w \<and> vnorm w \<noteq> 0 \<and> qs ! i = map (\<lambda>x. x / vnorm w) w)"
  using assms
proof (induction todo arbitrary: us rewritten norms)
  case Nil
  then show ?case by simp
next
  case (Cons v rest)
  from Cons.prems(1) have ind: "linearly_independent d ((us @ [v]) @ rest)" by simp
  then have ind1: "linearly_independent d (us @ [v])" by (rule independent_prefix)
  then have len: "\<forall>u\<in>set us. length u = d" "length v = d"
    by (simp_all add: linearly_independent_def)
  from Cons.prems(2) have lq: "\<forall>q\<in>set rewritten. length q = d" by simp
  from orthogonalise_length [OF lq len(2)] obtain w where
    w: "orthogonalise v rewritten = Inr w" "length w = d" by blast
  have orth: "\<forall>q\<in>set rewritten. dot w q = 0"
    using orthogonalise_orthogonal [of rewritten d v w] Cons.prems(2,3) len(2) w(1) by simp
  from orthogonalise_span [of rewritten d us v w] Cons.prems(2) len w(1)
  obtain s where s: "in_span d us s" "w = vadd v s" by auto
  from s(1) len(1) have ls: "length s = d" by (auto simp: in_span_def)
  have nz: "vnorm w \<noteq> 0"
  proof
    assume "vnorm w = 0"
    then have "w = replicate d 0" using vnorm_zero [of w] w(2) by simp
    with s(2) have z: "vadd v s = replicate d 0" by simp
    have "v = smult (- 1) s"
    proof (rule nth_equalityI)
      show "length v = length (smult (- 1) s)" using len ls by simp
    next
      fix i assume i: "i < length v"
      with z len ls have "vadd v s ! i = 0" by simp
      with i len ls show "v ! i = smult (- 1) s ! i" by simp
    qed
    then have "in_span d us v"
      using in_span_smult [OF len(1) s(1), of "- 1"] by simp
    with independent_not_in_span [OF ind1] show False by simp
  qed
  let ?q = "map (\<lambda>x. x / vnorm w) w"
  have q_smult: "?q = smult (1 / vnorm w) w" by (simp add: smult_def)
  have "in_span d (us @ [v]) w"
    unfolding s(2) using len s(1)
    by (intro in_span_add in_span_last in_span_snoc) simp_all
  then have q_span: "in_span d (us @ [v]) ?q"
    unfolding q_smult using len by (intro in_span_smult) simp_all
  have q_unit: "dot ?q ?q = 1" using nz by (rule normalised_unit)
  have q_orth: "\<forall>q\<in>set rewritten. dot q ?q = 0"
    using orth by (simp add: dot_commute [of _ ?q] dot_div_left)
  have inv2: "\<forall>q\<in>set (rewritten @ [?q]). length q = d \<and> dot q q = 1 \<and> in_span d (us @ [v]) q"
    using Cons.prems(2) q_span q_unit w(2) len by (auto intro: in_span_snoc)
  have inv3: "sorted_wrt (\<lambda>a b. dot a b = 0) (rewritten @ [?q])"
    using Cons.prems(3) q_orth by (simp add: sorted_wrt_append)
  from Cons.IH [OF ind inv2 inv3, of "norms @ [vnorm w]"] obtain qs ns where
    r: "orthonormalise_loop (rewritten @ [?q]) rest (norms @ [vnorm w])
          = Inr ((rewritten @ [?q]) @ qs, (norms @ [vnorm w]) @ ns)"
      "length qs = length rest" "length ns = length rest"
      "\<forall>q\<in>set qs. length q = d \<and> dot q q = 1"
      "sorted_wrt (\<lambda>a b. dot a b = 0) ((rewritten @ [?q]) @ qs)"
      "\<forall>i<length rest. \<exists>w'. orthogonalise (rest ! i) ((rewritten @ [?q]) @ take i qs) = Inr w' \<and>
          ns ! i = vnorm w' \<and> vnorm w' \<noteq> 0 \<and> qs ! i = map (\<lambda>x. x / vnorm w') w'"
    by blast
  have res: "orthonormalise_loop rewritten (v # rest) norms
      = Inr (rewritten @ (?q # qs), norms @ (vnorm w # ns))"
    using w(1) nz r(1) by (simp add: Let_def)
  have idx: "\<forall>i<length (v # rest). \<exists>w'. orthogonalise ((v # rest) ! i) (rewritten @ take i (?q # qs)) = Inr w' \<and>
          (vnorm w # ns) ! i = vnorm w' \<and> vnorm w' \<noteq> 0 \<and> (?q # qs) ! i = map (\<lambda>x. x / vnorm w') w'"
  proof (intro allI impI)
    fix i assume "i < length (v # rest)"
    show "\<exists>w'. orthogonalise ((v # rest) ! i) (rewritten @ take i (?q # qs)) = Inr w' \<and>
          (vnorm w # ns) ! i = vnorm w' \<and> vnorm w' \<noteq> 0 \<and> (?q # qs) ! i = map (\<lambda>x. x / vnorm w') w'"
    proof (cases i)
      case 0
      with w(1) nz show ?thesis by simp
    next
      case (Suc k)
      with \<open>i < length (v # rest)\<close> have "k < length rest" by simp
      with r(6) Suc show ?thesis by simp
    qed
  qed
  have "\<forall>q\<in>set (?q # qs). length q = d \<and> dot q q = 1"
    using r(4) q_unit w(2) by simp
  moreover have "sorted_wrt (\<lambda>a b. dot a b = 0) (rewritten @ (?q # qs))"
    using r(5) by simp
  moreover have "length (?q # qs) = length (v # rest)" "length (vnorm w # ns) = length (v # rest)"
    using r(2,3) by simp_all
  ultimately show ?case using res idx by blast
qed

text \<open>
  Claim C9. For a list of linearly independent vectors of dimension \<open>d\<close> (two vectors in
  3-space, for one), \<open>orthonormalise\<close> over the reals returns; every vector it
  leaves has norm 1 and every two different ones have inner product 0; and the norm it
  returns for the vector at index \<open>i\<close> is the norm this vector had after the inner loop
  had orthogonalised it against the vectors before it (as rewritten), the vector left
  being that one divided by the norm.
\<close>

theorem orthonormalise_independent:
  assumes "linearly_independent d vectors"
  shows "\<exists>qs norms. orthonormalise vectors = Inr (qs, norms) \<and>
           length qs = length vectors \<and> length norms = length vectors \<and>
           (\<forall>i<length qs. length (qs ! i) = d \<and> vnorm (qs ! i) = 1) \<and>
           (\<forall>i j. i < length qs \<and> j < length qs \<and> i \<noteq> j \<longrightarrow> dot (qs ! i) (qs ! j) = 0) \<and>
           (\<forall>i<length vectors. \<exists>w. orthogonalise (vectors ! i) (take i qs) = Inr w \<and>
                norms ! i = vnorm w \<and> 0 < norms ! i \<and> qs ! i = map (\<lambda>x. x / norms ! i) w)"
proof -
  from orthonormalise_loop_correct [of d "[]" vectors "[]" "[]"] assms
  obtain qs ns where
    r: "orthonormalise vectors = Inr (qs, ns)"
      "length qs = length vectors" "length ns = length vectors"
      "\<forall>q\<in>set qs. length q = d \<and> dot q q = 1"
      "sorted_wrt (\<lambda>a b. dot a b = 0) qs"
      "\<forall>i<length vectors. \<exists>w. orthogonalise (vectors ! i) (take i qs) = Inr w \<and>
          ns ! i = vnorm w \<and> vnorm w \<noteq> 0 \<and> qs ! i = map (\<lambda>x. x / vnorm w) w"
    by (auto simp: orthonormalise_def)
  have unit: "\<forall>i<length qs. length (qs ! i) = d \<and> vnorm (qs ! i) = 1"
    using r(4) by (simp add: vnorm_def)
  have pair: "\<forall>i j. i < length qs \<and> j < length qs \<and> i \<noteq> j \<longrightarrow> dot (qs ! i) (qs ! j) = 0"
  proof (intro allI impI)
    fix i j assume ij: "i < length qs \<and> j < length qs \<and> i \<noteq> j"
    show "dot (qs ! i) (qs ! j) = 0"
    proof (cases "i < j")
      case True
      with r(5) ij show ?thesis by (simp add: sorted_wrt_iff_nth_less)
    next
      case False
      with ij have "j < i" by simp
      with r(5) ij have "dot (qs ! j) (qs ! i) = 0" by (simp add: sorted_wrt_iff_nth_less)
      then show ?thesis by (simp add: dot_commute)
    qed
  qed
  have nrm: "\<forall>i<length vectors. \<exists>w. orthogonalise (vectors ! i) (take i qs) = Inr w \<and>
                ns ! i = vnorm w \<and> 0 < ns ! i \<and> qs ! i = map (\<lambda>x. x / ns ! i) w"
  proof (intro allI impI)
    fix i assume "i < length vectors"
    with r(6) obtain w where w: "orthogonalise (vectors ! i) (take i qs) = Inr w"
      "ns ! i = vnorm w" "vnorm w \<noteq> 0" "qs ! i = map (\<lambda>x. x / vnorm w) w"
      by blast
    have "0 \<le> vnorm w" by (simp add: vnorm_def dot_self_nonneg)
    with w(3) have "0 < vnorm w" by simp
    with w show "\<exists>w. orthogonalise (vectors ! i) (take i qs) = Inr w \<and>
                ns ! i = vnorm w \<and> 0 < ns ! i \<and> qs ! i = map (\<lambda>x. x / ns ! i) w"
      by simp
  qed
  from r(1,2,3) unit pair nrm show ?thesis by blast
qed

theorem orthonormalise_independent_witness:
  "linearly_independent 3 [[3, 0, 4], [3, 5, 4]] \<and>
   orthonormalise [[3, 0, 4], [3, 5, 4]] = Inr ([[3 / 5, 0, 4 / 5], [0, 1, 0]], [5, 5]) \<and>
   (\<exists>qs norms. orthonormalise [[3, 0, 4], [3, 5, 4]] = Inr (qs, norms) \<and>
      length qs = 2 \<and> length norms = 2 \<and>
      vnorm (qs ! 0) = 1 \<and> vnorm (qs ! 1) = 1 \<and> dot (qs ! 0) (qs ! 1) = 0 \<and> dot (qs ! 1) (qs ! 0) = 0)"
proof -
  let ?vs = "[[3, 0, 4], [3, 5, 4 :: real]]"
  have ind: "linearly_independent 3 ?vs"
    unfolding linearly_independent_def
  proof (intro conjI allI impI)
    show "\<forall>v\<in>set ?vs. length v = 3" by simp
  next
    fix cs :: "real list"
    assume a: "length cs = length ?vs \<and> lincomb 3 cs ?vs = replicate 3 0"
    then obtain x y where cs: "cs = [x, y]"
      by (cases cs; cases "tl cs") auto
    from a have "5 * y = 0" "3 * x + 3 * y = 0"
      unfolding cs by (simp_all add: vadd_def smult_def numeral_3_eq_3)
    then have "x = 0" "y = 0" by simp_all
    with cs show "\<forall>c\<in>set cs. c = 0" by simp
  qed
  have sq: "sqrt 25 = 5"
    by (rule real_sqrt_unique) simp_all
  have ev: "orthonormalise ?vs = Inr ([[3 / 5, 0, 4 / 5], [0, 1, 0]], [5, 5])"
    by (simp add: orthonormalise_def vnorm_def dot_def sq Let_def)
  from orthonormalise_independent [OF ind] obtain qs norms where
    r: "orthonormalise ?vs = Inr (qs, norms)" "length qs = length ?vs" "length norms = length ?vs"
      "\<forall>i<length qs. length (qs ! i) = 3 \<and> vnorm (qs ! i) = 1"
      "\<forall>i j. i < length qs \<and> j < length qs \<and> i \<noteq> j \<longrightarrow> dot (qs ! i) (qs ! j) = 0"
    by blast
  from r(2,4) have "vnorm (qs ! 0) = 1" "vnorm (qs ! 1) = 1" by simp_all
  moreover from r(2,5) have "dot (qs ! 0) (qs ! 1) = 0" "dot (qs ! 1) (qs ! 0) = 0" by simp_all
  ultimately show ?thesis using ind ev r(1,2,3) by auto
qed

end
